(* ===== verification/Prelude.thy ===== *)
theory Prelude
  imports Main "HOL-Library.Word"
begin

text \<open>
  Shared ground of the development: the names of the machine types, big-endian packing of
  unsigned integers (Go's \<open>encoding/binary.BigEndian\<close>), results with an error, the theorem
  collections the component theories add to, and two interfaces stated as locales.
  \<open>prefix_codec\<close> is the law a serialiser and its parser share: parsing what was serialised,
  with anything after it, gives the value back and leaves exactly what came after.
  \<open>packet_reader\<close> extends it by the loop that parses a whole datagram.
\<close>

unbundle bit_operations_syntax

section \<open>Machine types\<close>

type_synonym byte = "8 word"
type_synonym bytes = "byte list"
type_synonym u16 = "16 word"
type_synonym u32 = "32 word"
type_synonym u64 = "64 word"

named_theorems codec_simps "equations and round trips of serialisers and parsers"
named_theorems inv_intros "introduction rules that an operation keeps an invariant"
named_theorems state_simps "how operations change the state machine's state"

section \<open>Results\<close>

text \<open>A Go call that returns \<open>(value, error)\<close> is a value of \<open>'e + 'a\<close>, \<open>Inl\<close> for the error.\<close>

definition rbind :: "'e + 'a \<Rightarrow> ('a \<Rightarrow> 'e + 'b) \<Rightarrow> 'e + 'b" where
  "rbind r f = (case r of Inl e \<Rightarrow> Inl e | Inr x \<Rightarrow> f x)"

lemma rbind_simps [simp]: "rbind (Inl e) f = Inl e" "rbind (Inr x) f = f x"
  by (simp_all add: rbind_def)

lemma rbind_eq_Inr: "rbind r f = Inr y \<longleftrightarrow> (\<exists>x. r = Inr x \<and> f x = Inr y)"
  by (cases r) simp_all

lemma rbind_eq_Inl: "rbind r f = Inl e \<longleftrightarrow> r = Inl e \<or> (\<exists>x. r = Inr x \<and> f x = Inl e)"
  by (cases r) simp_all

lemma rbind_cong [fundef_cong]:
  "r = r' \<Longrightarrow> (\<And>x. r' = Inr x \<Longrightarrow> f x = g x) \<Longrightarrow> rbind r f = rbind r' g"
  by (cases r') simp_all

section \<open>Big-endian integers\<close>

definition put_u16 :: "u16 \<Rightarrow> bytes" where
  "put_u16 w = [ucast (drop_bit 8 w), ucast w]"

definition put_u32 :: "u32 \<Rightarrow> bytes" where
  "put_u32 w = [ucast (drop_bit 24 w), ucast (drop_bit 16 w), ucast (drop_bit 8 w), ucast w]"

text \<open>
  The readers index their argument; Go panics on a slice that is too short, and every caller
  in the model has checked the length first, so the value on a short list never matters.
\<close>

fun get_u16 :: "bytes \<Rightarrow> u16" where
  "get_u16 (a # b # _) = push_bit 8 (ucast a) OR ucast b"
| "get_u16 _ = 0"

fun get_u32 :: "bytes \<Rightarrow> u32" where
  "get_u32 (a # b # c # d # _) =
     push_bit 24 (ucast a) OR push_bit 16 (ucast b) OR push_bit 8 (ucast c) OR ucast d"
| "get_u32 _ = 0"

lemma byte_bit_beyond: "8 \<le> n \<Longrightarrow> \<not> bit (a :: byte) n"
  using bit_imp_le_length [of a n] by auto

lemma length_put_u16 [simp]: "length (put_u16 w) = 2"
  by (simp add: put_u16_def)

lemma length_put_u32 [simp]: "length (put_u32 w) = 4"
  by (simp add: put_u32_def)

lemma get_put_u16_aux: "n < 16 \<Longrightarrow> bit (get_u16 (put_u16 w)) n = bit w n"
proof -
  assume "n < 16"
  then consider "n < 8" | "8 \<le> n" "n < 16"
    by (metis not_less)
  then show ?thesis by cases (auto simp add: put_u16_def bit_simps less_diff_conv2)
qed

lemma get_put_u16 [codec_simps, simp]: "get_u16 (put_u16 w @ r) = w"
  using get_put_u16_aux [of _ w] by (auto simp: put_u16_def intro!: bit_word_eqI)

lemma get_put_u32_aux: "n < 32 \<Longrightarrow> bit (get_u32 (put_u32 w)) n = bit w n"
proof -
  assume "n < 32"
  then consider "n < 8" | "8 \<le> n" "n < 16" | "16 \<le> n" "n < 24" | "24 \<le> n" "n < 32"
    by (metis not_less)
  then show ?thesis by cases (auto simp add: put_u32_def bit_simps less_diff_conv2)
qed

lemma get_put_u32 [codec_simps, simp]: "get_u32 (put_u32 w @ r) = w"
  using get_put_u32_aux [of _ w] by (auto simp: put_u32_def intro!: bit_word_eqI)

lemma put_get_u16 [codec_simps]: "put_u16 (get_u16 (a # b # r)) = [a, b]"
  by (auto simp: put_u16_def bit_simps byte_bit_beyond intro!: bit_word_eqI)

lemma put_get_u32 [codec_simps]: "put_u32 (get_u32 (a # b # c # d # r)) = [a, b, c, d]"
  by (auto simp: put_u32_def bit_simps byte_bit_beyond intro!: bit_word_eqI)

lemma drop_put_u16 [codec_simps, simp]: "drop 2 (put_u16 w @ r) = r"
  by (simp add: put_u16_def)

lemma drop_put_u32 [codec_simps, simp]: "drop 4 (put_u32 w @ r) = r"
  by (simp add: put_u32_def)

section \<open>Word arithmetic the components share\<close>

lemma unat_diff_no_wrap: "b \<le> a \<Longrightarrow> unat (a - b) = unat a - unat (b :: 'a::len word)"
  by (simp add: unat_sub)

lemma unat_diff_wrap:
  fixes a b :: u32
  assumes "a < b"
  shows "unat (a - b) = 2 ^ 32 + unat a - unat b"
  using assms unat_sub_if_size [of a b] by (simp add: word_size word_less_nat_alt)

lemma unat_Suc_no_wrap: "unat (w :: u32) + 1 < 2 ^ 32 \<Longrightarrow> unat (w + 1) = unat w + 1"
  by (simp add: unat_word_ariths)

lemma unat_of_nat_id: "n < 2 ^ 32 \<Longrightarrow> unat (of_nat n :: u32) = n"
  by (simp add: unat_of_nat take_bit_eq_mod)

section \<open>Interfaces\<close>

locale prefix_codec =
  fixes enc :: "'a \<Rightarrow> bytes"
    and dec :: "bytes \<Rightarrow> ('b \<times> bytes) option"
    and view :: "'a \<Rightarrow> 'b"
    and wf :: "'a \<Rightarrow> bool"
  assumes dec_enc: "wf x \<Longrightarrow> dec (enc x @ r) = Some (view x, r)"
    and enc_nonempty: "wf x \<Longrightarrow> enc x \<noteq> []"
begin

text \<open>No serialised value is a proper prefix of another: the stream is uniquely readable.\<close>

lemma enc_unambiguous:
  assumes "wf x" "wf y" "enc x @ r = enc y @ s"
  shows "view x = view y \<and> r = s"
  using dec_enc [OF assms(1), of r] dec_enc [OF assms(2), of s] assms(3) by simp

lemma enc_inj_on_view: "wf x \<Longrightarrow> wf y \<Longrightarrow> enc x = enc y \<Longrightarrow> view x = view y"
  using enc_unambiguous [of x y "[]" "[]"] by simp

end

locale packet_reader = prefix_codec enc dec view wf
  for enc :: "'a \<Rightarrow> bytes" and dec :: "bytes \<Rightarrow> ('b \<times> bytes) option"
    and view :: "'a \<Rightarrow> 'b" and wf :: "'a \<Rightarrow> bool" +
  fixes loop :: "bytes \<Rightarrow> 'b list"
  assumes loop_unfold:
    "loop b = (if b = [] then [] else case dec b of None \<Rightarrow> [] | Some (s, x) \<Rightarrow> s # loop x)"
begin

lemma loop_Nil: "loop [] = []"
  by (subst loop_unfold) simp

lemma loop_step: "wf x \<Longrightarrow> loop (enc x @ r) = view x # loop r"
  by (subst loop_unfold) (simp add: dec_enc enc_nonempty)

lemma loop_concat: "list_all wf xs \<Longrightarrow> loop (concat (map enc xs) @ r) = map view xs @ loop r"
  by (induction xs) (simp_all add: loop_step)

lemma loop_packet: "list_all wf xs \<Longrightarrow> loop (concat (map enc xs)) = map view xs"
  using loop_concat [of xs "[]"] by (simp add: loop_Nil)

text \<open>Bytes that do not parse end the packet and drop nothing that came before them.\<close>

lemma loop_garbage: "list_all wf xs \<Longrightarrow> dec g = None \<Longrightarrow>
    loop (concat (map enc xs) @ g) = map view xs"
  by (subst loop_concat) (simp_all add: loop_unfold [of g])

end

text \<open>
  A component whose state has a control part \<open>st\<close> that only moves along the edges of a graph,
  every edge going up in \<open>rank\<close>: its runs are paths of the graph, never turn back, and stay where
  no edge leads on.
\<close>

locale ranked_machine =
  fixes step :: "'s \<Rightarrow> 's \<Rightarrow> bool"
    and st :: "'s \<Rightarrow> 'q"
    and edge :: "'q \<Rightarrow> 'q \<Rightarrow> bool"
    and rank :: "'q \<Rightarrow> nat"
  assumes step_path: "step s t \<Longrightarrow> edge\<^sup>*\<^sup>* (st s) (st t)"
    and edge_rank: "edge a b \<Longrightarrow> rank a < rank b"
begin

lemma run_path: "step\<^sup>*\<^sup>* s t \<Longrightarrow> edge\<^sup>*\<^sup>* (st s) (st t)"
  by (induction rule: rtranclp_induct) (auto dest: step_path)

lemma path_rank: "edge\<^sup>*\<^sup>* a b \<Longrightarrow> rank a \<le> rank b \<and> (rank a = rank b \<longrightarrow> a = b)"
  by (induction rule: rtranclp_induct) (auto dest: edge_rank)

lemma run_rank: "step\<^sup>*\<^sup>* s t \<Longrightarrow> rank (st s) \<le> rank (st t)"
  using run_path path_rank by blast

lemma run_final: "step\<^sup>*\<^sup>* s t \<Longrightarrow> (\<And>b. \<not> edge (st s) b) \<Longrightarrow> st t = st s"
  using run_path [of s t] by (metis converse_rtranclpE)

text \<open>A control state that was left is never entered again.\<close>

lemma no_return: "step\<^sup>*\<^sup>* s t \<Longrightarrow> step\<^sup>*\<^sup>* t u \<Longrightarrow> st s = st u \<Longrightarrow> st t = st s"
  using run_path path_rank by (metis le_antisym)

end

end
