(* ===== verification/Buf.thy ===== *)
theory Buf
  imports Prelude "HOL-Library.Monad_Syntax"
begin

text \<open>
  \<open>common/buf/buffer.go\<close> and \<open>common/buf/multi_buffer.go\<close>: the 8 KiB buffer with its window
  \<open>[start, end)\<close> over a backing array, and lists of such buffers. A Go panic (slice bounds,
  explicit \<open>panic\<close>) is \<open>None\<close>; an \<open>error\<close> result is a value of \<open>io_err\<close> beside the count.
  A \<open>nil\<close> backing array (after \<open>Release\<close>) is the empty list, on which every operation behaves as
  on \<open>nil\<close>. The array's capacity is its length, as it is for the arrays of the pools. Offsets
  are \<open>int32\<close> in Go and \<open>int\<close> here, and an array has at most \<open>2 ^ 31 - 1\<close> bytes; a sum that is
  stored or compared is wrapped to 32 bits by \<open>i32\<close>, one that is only an index is not, as it is then out of
  bounds in both. The \<open>UDP\<close> field, which no operation here reads, is
  left out. Contents are the abstraction: \<open>content\<close> of a buffer, \<open>mb_bytes\<close> of a list of them.
\<close>

section \<open>One buffer\<close>

text \<open>A sum of \<open>int32\<close> values.\<close>

definition i32 :: "int \<Rightarrow> int" where
  "i32 x = signed_take_bit 31 x"

lemma i32_id: "- (2 ^ 31) \<le> x \<Longrightarrow> x < 2 ^ 31 \<Longrightarrow> i32 x = x"
  by (simp add: i32_def signed_take_bit_int_eq_self)

datatype ownership = managed | unmanaged | bytespools

record buffer =
  bv :: bytes
  bstart :: int
  bend :: int
  bown :: ownership

datatype io_err = EOF | ErrBufferFull | OutOfBound

definition buf_Size :: nat where
  "buf_Size = 8192"

text \<open>Go's slice expression \<open>v[i:j]\<close>, with its bounds check.\<close>

definition go_slice :: "bytes \<Rightarrow> int \<Rightarrow> int \<Rightarrow> bytes option" where
  "go_slice v i j =
     (if 0 \<le> i \<and> i \<le> j \<and> j \<le> int (length v)
      then Some (take (nat (j - i)) (drop (nat i) v)) else None)"

text \<open>The array after \<open>copy(v[i:], d)\<close>, for \<open>d\<close> no longer than the room there is.\<close>

definition patch_at :: "bytes \<Rightarrow> nat \<Rightarrow> bytes \<Rightarrow> bytes" where
  "patch_at v i d = take i v @ d @ drop (i + length d) v"

text \<open>\<open>p\<close> is the array the pool hands out, whatever it holds.\<close>

definition Buffer_New :: "bytes \<Rightarrow> buffer" where
  "Buffer_New p =
     \<lparr>bv = (if length p \<ge> buf_Size then take buf_Size p else replicate buf_Size 0),
      bstart = 0, bend = 0, bown = managed\<rparr>"

definition Buffer_NewExisted :: "bytes \<Rightarrow> nat \<Rightarrow> buffer option" where
  \<comment> \<open>the slice is the first \<open>n\<close> bytes of the array \<open>a\<close>\<close>
  "Buffer_NewExisted a n =
     (if length a < buf_Size then None
      else Some \<lparr>bv = (if n < buf_Size then take buf_Size a else take n a),
                 bstart = 0, bend = int n, bown = managed\<rparr>)"

definition Buffer_FromBytes :: "bytes \<Rightarrow> buffer" where
  "Buffer_FromBytes b = \<lparr>bv = b, bstart = 0, bend = int (length b), bown = unmanaged\<rparr>"

definition Buffer_Clear :: "buffer \<Rightarrow> buffer" where
  "Buffer_Clear b = b\<lparr>bstart := 0, bend := 0\<rparr>"

definition Buffer_Release :: "buffer \<Rightarrow> buffer" where
  "Buffer_Release b =
     (if bv b = [] \<or> bown b = unmanaged then b else Buffer_Clear (b\<lparr>bv := []\<rparr>))"

definition Buffer_Byte :: "buffer \<Rightarrow> int \<Rightarrow> byte option" where
  "Buffer_Byte b i =
     (let k = bstart b + i in
      if 0 \<le> k \<and> k < int (length (bv b)) then Some (bv b ! nat k) else None)"

definition Buffer_SetByte :: "buffer \<Rightarrow> int \<Rightarrow> byte \<Rightarrow> buffer option" where
  "Buffer_SetByte b i x =
     (let k = bstart b + i in
      if 0 \<le> k \<and> k < int (length (bv b)) then Some (b\<lparr>bv := (bv b)[nat k := x]\<rparr>) else None)"

definition Buffer_Bytes :: "buffer \<Rightarrow> bytes option" where
  "Buffer_Bytes b = go_slice (bv b) (bstart b) (bend b)"

text \<open>\<open>Extend\<close> returns the extended part, cleared; the caller fills it with \<open>d\<close> bytes.\<close>

definition Buffer_Extend :: "buffer \<Rightarrow> int \<Rightarrow> buffer option" where
  "Buffer_Extend b n =
     (let e = bend b + n in
      if e > int (length (bv b)) then None
      else do {
        ext \<leftarrow> go_slice (bv b) (bend b) e;
        Some (b\<lparr>bend := e, bv := patch_at (bv b) (nat (bend b)) (replicate (length ext) 0)\<rparr>)
      })"

definition Buffer_Len :: "buffer \<Rightarrow> int" where
  "Buffer_Len b = bend b - bstart b"

definition Buffer_BytesRange :: "buffer \<Rightarrow> int \<Rightarrow> int \<Rightarrow> bytes option" where
  "Buffer_BytesRange b frm to =
     (let f = (if frm < 0 then frm + Buffer_Len b else frm);
          t = (if to < 0 then to + Buffer_Len b else to)
      in go_slice (bv b) (bstart b + f) (bstart b + t))"

definition Buffer_BytesFrom :: "buffer \<Rightarrow> int \<Rightarrow> bytes option" where
  "Buffer_BytesFrom b frm =
     (let f = (if frm < 0 then frm + Buffer_Len b else frm)
      in go_slice (bv b) (bstart b + f) (bend b))"

definition Buffer_BytesTo :: "buffer \<Rightarrow> int \<Rightarrow> bytes option" where
  "Buffer_BytesTo b to =
     (let t = (if to < 0 then to + Buffer_Len b else to);
          t' = (if t < 0 then 0 else t)
      in go_slice (bv b) (bstart b) (bstart b + t'))"

definition Buffer_Check :: "buffer \<Rightarrow> buffer" where
  "Buffer_Check b =
     (let s = (if bstart b < 0 then 0 else bstart b);
          e = (if bend b < 0 then 0 else bend b)
      in b\<lparr>bstart := (if s > e then e else s), bend := e\<rparr>)"

definition Buffer_Resize :: "buffer \<Rightarrow> int \<Rightarrow> int \<Rightarrow> buffer option" where
  "Buffer_Resize b frm to =
     (let oldEnd = bend b;
          f = (if frm < 0 then frm + Buffer_Len b else frm);
          t = (if to < 0 then to + Buffer_Len b else to)
      in if t < f then None
         else let b' = Buffer_Check (b\<lparr>bend := i32 (bstart b + t), bstart := i32 (bstart b + f)\<rparr>)
              in if bend b' > oldEnd
                 then do {
                   gap \<leftarrow> go_slice (bv b') oldEnd (bend b');
                   Some (b'\<lparr>bv := patch_at (bv b') (nat oldEnd) (replicate (length gap) 0)\<rparr>)
                 }
                 else Some b')"

definition Buffer_Advance :: "buffer \<Rightarrow> int \<Rightarrow> buffer" where
  "Buffer_Advance b frm =
     (let f = (if frm < 0 then frm + Buffer_Len b else frm)
      in Buffer_Check (b\<lparr>bstart := i32 (bstart b + f)\<rparr>))"

definition Buffer_Available :: "buffer \<Rightarrow> int" where
  "Buffer_Available b = int (length (bv b)) - bend b"

definition Buffer_IsEmpty :: "buffer \<Rightarrow> bool" where
  "Buffer_IsEmpty b = (Buffer_Len b = 0)"

definition Buffer_IsFull :: "buffer \<Rightarrow> bool" where
  "Buffer_IsFull b = (bend b = int (length (bv b)))"

definition Buffer_Write :: "buffer \<Rightarrow> bytes \<Rightarrow> (buffer \<times> nat \<times> io_err option) option" where
  "Buffer_Write b data = do {
     room \<leftarrow> go_slice (bv b) (bend b) (int (length (bv b)));
     let n = min (length room) (length data);
     Some (b\<lparr>bv := patch_at (bv b) (nat (bend b)) (take n data), bend := bend b + int n\<rparr>,
           n, if n < length data then Some ErrBufferFull else None)
   }"

definition Buffer_WriteByte :: "buffer \<Rightarrow> byte \<Rightarrow> (buffer \<times> io_err option) option" where
  "Buffer_WriteByte b x =
     (if Buffer_IsFull b then Some (b, Some ErrBufferFull)
      else if 0 \<le> bend b \<and> bend b < int (length (bv b))
           then Some (b\<lparr>bv := (bv b)[nat (bend b) := x], bend := bend b + 1\<rparr>, None)
           else None)"

definition Buffer_ReadByte :: "buffer \<Rightarrow> (buffer \<times> (io_err + byte)) option" where
  "Buffer_ReadByte b =
     (if bstart b = bend b then Some (b, Inl EOF)
      else if 0 \<le> bstart b \<and> bstart b < int (length (bv b))
           then Some (b\<lparr>bstart := bstart b + 1\<rparr>, Inr (bv b ! nat (bstart b)))
           else None)"

definition Buffer_ReadBytes :: "buffer \<Rightarrow> int \<Rightarrow> (buffer \<times> (io_err + bytes)) option" where
  "Buffer_ReadBytes b n =
     (if bend b - bstart b < n then Some (b, Inl EOF)
      else do {
        nb \<leftarrow> go_slice (bv b) (bstart b) (bstart b + n);
        Some (b\<lparr>bstart := bstart b + n\<rparr>, Inr nb)
      })"

text \<open>\<open>Read\<close> into a slice of \<open>n\<close> bytes: the bytes it copies.\<close>

definition Buffer_Read :: "buffer \<Rightarrow> nat \<Rightarrow> (buffer \<times> bytes \<times> io_err option) option" where
  "Buffer_Read b n =
     (if Buffer_Len b = 0 then Some (b, [], Some EOF)
      else do {
        c \<leftarrow> go_slice (bv b) (bstart b) (bend b);
        let d = take n c;
        Some (if int (length d) = Buffer_Len b then Buffer_Clear b
              else b\<lparr>bstart := bstart b + int (length d)\<rparr>, d, None)
      })"

subsection \<open>Well-formed buffers and their contents\<close>

definition buf_inv :: "buffer \<Rightarrow> bool" where
  "buf_inv b \<longleftrightarrow> 0 \<le> bstart b \<and> bstart b \<le> bend b \<and> bend b \<le> int (length (bv b))"

definition content :: "buffer \<Rightarrow> bytes" where
  "content b = take (nat (bend b - bstart b)) (drop (nat (bstart b)) (bv b))"

lemma length_content: "buf_inv b \<Longrightarrow> length (content b) = nat (Buffer_Len b)"
  by (auto simp: buf_inv_def content_def Buffer_Len_def)

lemma Buffer_Len_content: "buf_inv b \<Longrightarrow> Buffer_Len b = int (length (content b))"
  by (auto simp: buf_inv_def Buffer_Len_def content_def)

lemma Buffer_IsEmpty_content: "buf_inv b \<Longrightarrow> Buffer_IsEmpty b \<longleftrightarrow> content b = []"
  by (metis Buffer_IsEmpty_def Buffer_Len_content length_0_conv of_nat_eq_0_iff)

lemma Buffer_Bytes_content: "buf_inv b \<Longrightarrow> Buffer_Bytes b = Some (content b)"
  by (simp add: Buffer_Bytes_def go_slice_def content_def buf_inv_def)

lemma buf_inv_New [inv_intros]: "buf_inv (Buffer_New p)"
  by (simp add: buf_inv_def Buffer_New_def)

lemma content_New [simp]: "content (Buffer_New p) = []"
  by (simp add: content_def Buffer_New_def)

lemma length_bv_New [simp]: "length (bv (Buffer_New p)) = buf_Size"
  by (simp add: Buffer_New_def)

lemma buf_inv_Clear [inv_intros]: "buf_inv (Buffer_Clear b)"
  by (simp add: buf_inv_def Buffer_Clear_def)

lemma content_Clear [simp]: "content (Buffer_Clear b) = []"
  by (simp add: content_def Buffer_Clear_def)

lemma buf_inv_FromBytes [inv_intros]: "buf_inv (Buffer_FromBytes d)"
  by (simp add: buf_inv_def Buffer_FromBytes_def)

lemma content_FromBytes [simp]: "content (Buffer_FromBytes d) = d"
  by (simp add: content_def Buffer_FromBytes_def)

lemma buf_inv_nat:
  assumes "buf_inv b"
  obtains s e where "bstart b = int s" "bend b = int e" "s \<le> e" "e \<le> length (bv b)"
    "content b = take (e - s) (drop s (bv b))"
proof (rule that [of "nat (bstart b)" "nat (bend b)"])
  show "content b = take (nat (bend b) - nat (bstart b)) (drop (nat (bstart b)) (bv b))"
    using assms by (simp add: content_def buf_inv_def nat_diff_distrib)
qed (use assms in \<open>auto simp: buf_inv_def\<close>)

lemma content_nat:
  "bstart b = int s \<Longrightarrow> bend b = int e \<Longrightarrow> content b = take (e - s) (drop s (bv b))"
  by (simp add: content_def nat_diff_distrib flip: of_nat_diff) (metis nat_int nat_minus_as_int)

lemma content_advance:
  assumes "buf_inv b" and n: "n \<le> length (content b)"
  shows "buf_inv (b\<lparr>bstart := bstart b + int n\<rparr>)"
    and "content (b\<lparr>bstart := bstart b + int n\<rparr>) = drop n (content b)"
proof -
  obtain s e where se: "bstart b = int s" "bend b = int e" "s \<le> e" "e \<le> length (bv b)"
      "content b = take (e - s) (drop s (bv b))"
    using assms(1) by (rule buf_inv_nat)
  from n se have n': "n \<le> e - s" by simp
  show "buf_inv (b\<lparr>bstart := bstart b + int n\<rparr>)"
    using se n' by (simp add: buf_inv_def)
  have "content (b\<lparr>bstart := bstart b + int n\<rparr>) = take (e - (s + n)) (drop (s + n) (bv b))"
    using content_nat [of "b\<lparr>bstart := bstart b + int n\<rparr>" "s + n" e] se by simp
  then show "content (b\<lparr>bstart := bstart b + int n\<rparr>) = drop n (content b)"
    by (simp add: se drop_take add.commute diff_diff_left)
qed

lemma Buffer_Read_content:
  assumes "buf_inv b"
  shows "\<exists>b' e. Buffer_Read b n = Some (b', take n (content b), e) \<and> buf_inv b' \<and>
           content b' = drop n (content b) \<and> (e = Some EOF \<longleftrightarrow> content b = [])"
proof (cases "Buffer_Len b = 0")
  case True
  with assms have "content b = []"
    using Buffer_IsEmpty_content by (simp add: Buffer_IsEmpty_def)
  with True assms show ?thesis by (simp add: Buffer_Read_def)
next
  case False
  with assms have ne: "content b \<noteq> []"
    using Buffer_IsEmpty_content by (simp add: Buffer_IsEmpty_def)
  have c: "go_slice (bv b) (bstart b) (bend b) = Some (content b)"
    using Buffer_Bytes_content [OF assms] by (simp add: Buffer_Bytes_def)
  show ?thesis
  proof (cases "length (content b) \<le> n")
    case True
    with c False ne assms show ?thesis
      by (simp add: Buffer_Read_def Let_def buf_inv_Clear Buffer_Len_content)
  next
    case n: False
    with c False ne assms content_advance [OF assms, of n] show ?thesis
      by (simp add: Buffer_Read_def Let_def Buffer_Len_content min_def)
  qed
qed

lemma patch_at_content:
  assumes "s \<le> e" "e \<le> length v" "length d \<le> length v - e"
  shows "take (e + length d - s) (drop s (patch_at v e d)) = take (e - s) (drop s v) @ d"
  using assms by (simp add: patch_at_def take_drop min_def)

lemma length_patch_at [simp]: "e + length d \<le> length v \<Longrightarrow> length (patch_at v e d) = length v"
  by (simp add: patch_at_def)

lemma Buffer_Write_content:
  assumes "buf_inv b" and room: "m = min (nat (Buffer_Available b)) (length d)"
  shows "\<exists>b'. Buffer_Write b d = Some (b', m, if m < length d then Some ErrBufferFull else None) \<and>
           buf_inv b' \<and> content b' = content b @ take m d \<and> length (bv b') = length (bv b) \<and>
           bstart b' = bstart b"
proof -
  obtain s e where se: "bstart b = int s" "bend b = int e" "s \<le> e" "e \<le> length (bv b)"
      "content b = take (e - s) (drop s (bv b))"
    using assms(1) by (rule buf_inv_nat)
  have m: "m = min (length (bv b) - e) (length d)"
    using room se by (simp add: Buffer_Available_def nat_diff_distrib)
  let ?b = "b\<lparr>bv := patch_at (bv b) e (take m d), bend := int (e + m)\<rparr>"
  have "content ?b = take (e + m - s) (drop s (patch_at (bv b) e (take m d)))"
    using content_nat [of ?b s "e + m"] se by simp
  also have "\<dots> = content b @ take m d"
    using patch_at_content [of s e "bv b" "take m d"] se m by simp
  finally have c: "content ?b = content b @ take m d" .
  have "buf_inv ?b"
    using se m by (simp add: buf_inv_def)
  moreover have "Buffer_Write b d = Some (?b, m, if m < length d then Some ErrBufferFull else None)"
    using se m by (simp add: Buffer_Write_def go_slice_def Let_def nat_diff_distrib)
  ultimately show ?thesis
    using c se m by simp
qed

lemma Buffer_Advance_content:
  assumes "buf_inv b" "n \<le> length (content b)" "bend b < 2 ^ 31"
  shows "buf_inv (Buffer_Advance b (int n))"
    and "content (Buffer_Advance b (int n)) = drop n (content b)"
    and "bv (Buffer_Advance b (int n)) = bv b"
proof -
  note adv = content_advance [OF assms(1,2)]
  have "i32 (bstart b + int n) = bstart b + int n"
    using adv(1) assms(1,3) by (intro i32_id) (auto simp: buf_inv_def)
  then have "Buffer_Advance b (int n) = b\<lparr>bstart := bstart b + int n\<rparr>"
    using adv(1) assms(1)
    by (auto simp: Buffer_Advance_def Buffer_Check_def Let_def buf_inv_def)
  with adv show "buf_inv (Buffer_Advance b (int n))"
    and "content (Buffer_Advance b (int n)) = drop n (content b)"
    and "bv (Buffer_Advance b (int n)) = bv b" by simp_all
qed

lemma Buffer_BytesTo_content:
  assumes "buf_inv b" "n \<le> length (content b)"
  shows "Buffer_BytesTo b (int n) = Some (take n (content b))"
proof -
  obtain s e where se: "bstart b = int s" "bend b = int e" "s \<le> e" "e \<le> length (bv b)"
      "content b = take (e - s) (drop s (bv b))"
    using assms(1) by (rule buf_inv_nat)
  have n: "n \<le> e - s"
    using assms(2) se by simp
  then have "int s + int n \<le> int (length (bv b))"
    using se by linarith
  with n se show ?thesis
    by (simp add: Buffer_BytesTo_def go_slice_def Let_def min_def)
qed

text \<open>
  \<open>Extend\<close> then \<open>copy\<close>, as \<open>SplitSize\<close> does on a new buffer: \<open>fill\<close> is the copy into the
  extended part.
\<close>

definition Buffer_fill :: "buffer \<Rightarrow> nat \<Rightarrow> bytes \<Rightarrow> buffer" where
  "Buffer_fill b at d = b\<lparr>bv := patch_at (bv b) at d\<rparr>"

section \<open>Lists of buffers\<close>

type_synonym multi_buffer = "buffer list"

definition mb_bytes :: "multi_buffer \<Rightarrow> bytes" where
  "mb_bytes mb = concat (map content mb)"

abbreviation mb_inv :: "multi_buffer \<Rightarrow> bool" where
  "mb_inv mb \<equiv> list_all buf_inv mb"

text \<open>A well-formed buffer with an array of less than 1 GiB, far above every buffer of the program.\<close>

definition fits :: "buffer \<Rightarrow> bool" where
  "fits b \<longleftrightarrow> buf_inv b \<and> length (bv b) < 2 ^ 30"

lemma fits_inv [simp]: "fits b \<Longrightarrow> buf_inv b"
  by (simp add: fits_def)

lemma fits_FromBytes: "length d < 2 ^ 30 \<Longrightarrow> fits (Buffer_FromBytes d)"
  by (simp add: fits_def buf_inv_FromBytes) (simp add: Buffer_FromBytes_def)

lemma fits_bend: "fits b \<Longrightarrow> bend b < 2 ^ 30"
  by (auto simp: fits_def buf_inv_def)

lemma fits_list: "list_all fits mb \<Longrightarrow> mb_inv mb"
  by (auto simp: list_all_iff)

lemma Buffer_Extend_New:
  assumes "n \<le> buf_Size"
  shows "\<exists>b. Buffer_Extend (Buffer_New p) (int n) = Some b \<and>
           (\<forall>d. length d = n \<longrightarrow> fits (Buffer_fill b 0 d) \<and> content (Buffer_fill b 0 d) = d)"
proof -
  let ?n = "Buffer_New p"
  let ?b = "?n\<lparr>bend := int n, bv := patch_at (bv ?n) 0 (replicate n 0)\<rparr>"
  have "Buffer_Extend ?n (int n) = Some ?b"
    using assms by (simp add: Buffer_Extend_def go_slice_def Let_def)
      (simp add: Buffer_New_def)
  moreover have "fits (Buffer_fill ?b 0 d) \<and> content (Buffer_fill ?b 0 d) = d"
    if "length d = n" for d
    using that assms
    by (auto simp: Buffer_fill_def fits_def buf_inv_def content_def patch_at_def Buffer_New_def buf_Size_def)
  ultimately show ?thesis by blast
qed

lemma mb_bytes_simps [simp]:
  "mb_bytes [] = []" "mb_bytes (b # mb) = content b @ mb_bytes mb"
  "mb_bytes (mb @ mb') = mb_bytes mb @ mb_bytes mb'"
  by (simp_all add: mb_bytes_def)

definition MultiBuffer_Len :: "multi_buffer \<Rightarrow> int" where
  "MultiBuffer_Len mb = fold (\<lambda>b sz. i32 (sz + Buffer_Len b)) mb 0"

definition MultiBuffer_IsEmpty :: "multi_buffer \<Rightarrow> bool" where
  "MultiBuffer_IsEmpty mb = list_all Buffer_IsEmpty mb"

definition MergeMulti :: "multi_buffer \<Rightarrow> multi_buffer \<Rightarrow> multi_buffer \<times> multi_buffer" where
  "MergeMulti dest src = (dest @ src, [])"

text \<open>\<open>pool k\<close> is the array of the \<open>k\<close>-th buffer taken from the pool.\<close>

function MergeBytes_loop :: "(nat \<Rightarrow> bytes) \<Rightarrow> nat \<Rightarrow> multi_buffer \<Rightarrow> bytes \<Rightarrow> multi_buffer option" where
  "MergeBytes_loop pool k dest src =
     (if src = [] then Some dest
      else case Buffer_Write (Buffer_New (pool k)) src of
             None \<Rightarrow> None
           | Some (b, n, _) \<Rightarrow> MergeBytes_loop pool (Suc k) (dest @ [b]) (drop n src))"
  by pat_completeness auto

lemma Buffer_Write_New:
  "\<exists>b. Buffer_Write (Buffer_New p) src =
         Some (b, min buf_Size (length src), if buf_Size < length src then Some ErrBufferFull else None) \<and>
       buf_inv b \<and> content b = take buf_Size src \<and> length (bv b) = buf_Size"
  using Buffer_Write_content [OF buf_inv_New refl, of p src]
  by (auto simp: Buffer_Available_def) (auto simp: Buffer_New_def)

termination MergeBytes_loop
proof (relation "measure (\<lambda>(pool, k, dest, src). length src)")
  fix pool :: "nat \<Rightarrow> bytes" and k :: nat and dest src and x :: "buffer \<times> nat \<times> io_err option" and b y n e
  assume ne: "src \<noteq> []" and w: "Buffer_Write (Buffer_New (pool k)) src = Some x"
    and x: "(b :: buffer, y) = x" "(n, e :: io_err option) = y"
  then have "n = min buf_Size (length src)"
    using Buffer_Write_New [of "pool k" src] by auto
  with ne show "((pool, Suc k, dest @ [b], drop n src), pool, k, dest, src)
      \<in> measure (\<lambda>(pool :: nat \<Rightarrow> bytes, k :: nat, dest :: multi_buffer, src). length src)"
    by (simp add: buf_Size_def)
qed simp

declare MergeBytes_loop.simps [simp del]

definition MergeBytes :: "(nat \<Rightarrow> bytes) \<Rightarrow> multi_buffer \<Rightarrow> bytes \<Rightarrow> multi_buffer option" where
  "MergeBytes pool dest src =
     (if dest \<noteq> [] \<and> \<not> Buffer_IsFull (last dest)
      then case Buffer_Write (last dest) src of
             None \<Rightarrow> None
           | Some (b, n, _) \<Rightarrow> MergeBytes_loop pool 0 (butlast dest @ [b]) (drop n src)
      else MergeBytes_loop pool 0 dest src)"

text \<open>\<open>mb.Copy(b)\<close> into a slice of \<open>n\<close> bytes: what it copies.\<close>

fun MultiBuffer_Copy :: "multi_buffer \<Rightarrow> nat \<Rightarrow> bytes option" where
  "MultiBuffer_Copy [] n = Some []"
| "MultiBuffer_Copy (bb # mb) n =
     (case Buffer_Bytes bb of
        None \<Rightarrow> None
      | Some c \<Rightarrow>
          let d = take n c
          in if int (length d) < Buffer_Len bb then Some d
             else map_option ((@) d) (MultiBuffer_Copy mb (n - length d)))"

text \<open>\<open>SplitBytes(mb, b)\<close> with \<open>b\<close> of \<open>n\<close> bytes: the rest and the bytes written into \<open>b\<close>.\<close>

fun SplitBytes :: "multi_buffer \<Rightarrow> nat \<Rightarrow> (multi_buffer \<times> bytes) option" where
  "SplitBytes [] n = Some ([], [])"
| "SplitBytes (pBuffer # mb) n =
     (case Buffer_Read pBuffer n of
        None \<Rightarrow> None
      | Some (pBuffer', d, _) \<Rightarrow>
          if \<not> Buffer_IsEmpty pBuffer' then Some (pBuffer' # mb, d)
          else map_option (\<lambda>(mb', d'). (mb', d @ d')) (SplitBytes mb (n - length d)))"

fun SplitFirst :: "multi_buffer \<Rightarrow> multi_buffer \<times> buffer option" where
  "SplitFirst [] = ([], None)"
| "SplitFirst (b # mb) = (mb, Some b)"

definition SplitFirstBytes :: "multi_buffer \<Rightarrow> nat \<Rightarrow> (multi_buffer \<times> bytes) option" where
  "SplitFirstBytes mb n =
     (case SplitFirst mb of
        (mb', None) \<Rightarrow> Some (mb', [])
      | (mb', Some b) \<Rightarrow> map_option (\<lambda>c. (mb', take n c)) (Buffer_Bytes b))"

text \<open>
  \<open>last.ReadFrom(curr)\<close>: \<open>curr.Read\<close> into the free part of \<open>last\<close>. \<open>common.Must2\<close> panics on
  any error, so also on the \<open>io.EOF\<close> that reading an empty buffer gives.
\<close>

definition Must_ReadFrom :: "buffer \<Rightarrow> buffer \<Rightarrow> buffer option" where
  "Must_ReadFrom lst cur =
     (case go_slice (bv lst) (bend lst) (int (length (bv lst))) of
        None \<Rightarrow> None
      | Some room \<Rightarrow>
          (case Buffer_Read cur (length room) of
             None \<Rightarrow> None
           | Some (_, _, Some e) \<Rightarrow> None
           | Some (_, d, None) \<Rightarrow>
               Some (lst\<lparr>bv := patch_at (bv lst) (nat (bend lst)) d,
                         bend := bend lst + int (length d)\<rparr>)))"

fun Compact_loop :: "multi_buffer \<Rightarrow> buffer \<Rightarrow> multi_buffer \<Rightarrow> multi_buffer option" where
  "Compact_loop mb2 lst [] = Some (mb2 @ [lst])"
| "Compact_loop mb2 lst (cur # mb) =
     (if Buffer_Len cur > Buffer_Available lst then Compact_loop (mb2 @ [lst]) cur mb
      else case Must_ReadFrom lst cur of
             None \<Rightarrow> None
           | Some lst' \<Rightarrow> Compact_loop mb2 lst' mb)"

fun Compact :: "multi_buffer \<Rightarrow> multi_buffer option" where
  "Compact [] = Some []"
| "Compact (b # mb) = Compact_loop [] b mb"

fun SplitSize_loop :: "int \<Rightarrow> int \<Rightarrow> multi_buffer \<Rightarrow> multi_buffer \<times> multi_buffer" where
  "SplitSize_loop sz totalBytes [] = ([], [])"
| "SplitSize_loop sz totalBytes (b # mb) =
     (if i32 (totalBytes + Buffer_Len b) > sz then (b # mb, [])
      else let (rest, r) = SplitSize_loop sz (i32 (totalBytes + Buffer_Len b)) mb in (rest, b # r))"

text \<open>The rest of the list first and the split-off part second, as the Go function returns them.\<close>

definition SplitSize :: "bytes \<Rightarrow> multi_buffer \<Rightarrow> int \<Rightarrow> (multi_buffer \<times> multi_buffer) option" where
  "SplitSize p mb sz =
     (case mb of
        [] \<Rightarrow> Some (mb, [])
      | b0 # mb0 \<Rightarrow>
          if Buffer_Len b0 > sz
          then do {
            b \<leftarrow> Buffer_Extend (Buffer_New p) sz;
            d \<leftarrow> Buffer_BytesTo b0 sz;
            Some (Buffer_Advance b0 sz # mb0, [Buffer_fill b 0 d])
          }
          else Some (SplitSize_loop sz 0 mb))"

definition SplitMulti :: "multi_buffer \<Rightarrow> int \<Rightarrow> multi_buffer \<times> multi_buffer" where
  "SplitMulti mb i =
     (if i < int (length mb) \<and> 0 \<le> i then (take (nat i) mb, drop (nat i) mb) else (mb, []))"

text \<open>A writer takes its state and the bytes to its next state and an error, if any.\<close>

fun WriteMultiBuffer ::
  "('w \<Rightarrow> bytes \<Rightarrow> 'w \<times> 'e option) \<Rightarrow> 'w \<Rightarrow> multi_buffer \<Rightarrow> ('w \<times> multi_buffer \<times> 'e option) option" where
  "WriteMultiBuffer wr w [] = Some (w, [], None)"
| "WriteMultiBuffer wr w (b # mb) =
     (case Buffer_Bytes b of
        None \<Rightarrow> None
      | Some c \<Rightarrow>
          (case wr w c of
             (w', Some e) \<Rightarrow> Some (w', mb, Some e)
           | (w', None) \<Rightarrow> WriteMultiBuffer wr w' mb))"

definition Container_Read :: "multi_buffer \<Rightarrow> nat \<Rightarrow> (multi_buffer \<times> bytes \<times> io_err option) option" where
  "Container_Read mb n =
     (if MultiBuffer_IsEmpty mb then Some (mb, [], Some EOF)
      else map_option (\<lambda>(mb', d). (mb', d, None)) (SplitBytes mb n))"

definition Container_Write :: "(nat \<Rightarrow> bytes) \<Rightarrow> multi_buffer \<Rightarrow> bytes \<Rightarrow> (multi_buffer \<times> nat) option" where
  "Container_Write pool mb b = map_option (\<lambda>mb'. (mb', length b)) (MergeBytes pool mb b)"

section \<open>What the list operations do to the contents\<close>

lemma Buffer_Available_nonneg: "buf_inv b \<Longrightarrow> 0 \<le> Buffer_Available b"
  by (simp add: buf_inv_def Buffer_Available_def)

lemma MultiBuffer_IsEmpty_bytes: "mb_inv mb \<Longrightarrow> MultiBuffer_IsEmpty mb \<longleftrightarrow> mb_bytes mb = []"
  by (induction mb) (auto simp: MultiBuffer_IsEmpty_def Buffer_IsEmpty_content)

lemma fold_Buffer_Len:
  assumes "mb_inv mb" "0 \<le> a" "a + int (length (mb_bytes mb)) < 2 ^ 31"
  shows "fold (\<lambda>b sz. i32 (sz + Buffer_Len b)) mb a = a + int (length (mb_bytes mb))"
  using assms
proof (induction mb arbitrary: a)
  case (Cons b mb)
  then have "i32 (a + Buffer_Len b) = a + int (length (content b))"
    by (simp add: Buffer_Len_content i32_id)
  with Cons.prems Cons.IH [of "a + int (length (content b))"] show ?case by simp
qed simp

lemma MultiBuffer_Len_bytes:
  "mb_inv mb \<Longrightarrow> length (mb_bytes mb) < 2 ^ 31 \<Longrightarrow> MultiBuffer_Len mb = int (length (mb_bytes mb))"
  using fold_Buffer_Len [of mb 0] by (simp add: MultiBuffer_Len_def)

lemma SplitBytes_spec:
  assumes "mb_inv mb"
  shows "\<exists>mb'. SplitBytes mb n = Some (mb', take n (mb_bytes mb)) \<and> mb_inv mb' \<and>
           mb_bytes mb' = drop n (mb_bytes mb) \<and> (mb' = [] \<or> content (hd mb') \<noteq> [])"
  using assms
proof (induction mb arbitrary: n)
  case Nil
  then show ?case by simp
next
  case (Cons b mb)
  then obtain b' e where r: "Buffer_Read b n = Some (b', take n (content b), e)" "buf_inv b'"
      "content b' = drop n (content b)"
    using Buffer_Read_content [of b n] by auto
  show ?case
  proof (cases "content b' = []")
    case True
    with r have le: "length (content b) \<le> n" by simp
    from Cons obtain mb' where
      "SplitBytes mb (n - length (content b)) = Some (mb', take (n - length (content b)) (mb_bytes mb))"
      "mb_inv mb'" "mb_bytes mb' = drop (n - length (content b)) (mb_bytes mb)"
      "mb' = [] \<or> content (hd mb') \<noteq> []"
      by fastforce
    with True r le show ?thesis
      by (simp add: Buffer_IsEmpty_content)
  next
    case False
    with r Cons.prems show ?thesis
      by (simp add: Buffer_IsEmpty_content)
  qed
qed

text \<open>
  The same operation on contents alone, which the components that never look inside a buffer
  use: \<open>SplitBytes\<close> refines it.
\<close>

fun split_contents :: "bytes list \<Rightarrow> nat \<Rightarrow> bytes list \<times> bytes" where
  "split_contents [] n = ([], [])"
| "split_contents (c # cs) n =
     (if length c > n then (drop n c # cs, take n c)
      else let (rest, d) = split_contents cs (n - length c) in (rest, c @ d))"

lemma split_contents_concat:
  "concat (fst (split_contents cs n)) = drop n (concat cs) \<and>
   snd (split_contents cs n) = take n (concat cs)"
  by (induction cs n rule: split_contents.induct) (auto simp: split_beta)

lemma SplitBytes_refines:
  "mb_inv mb \<Longrightarrow> map_option (map_prod (map content) id) (SplitBytes mb n) =
     Some (split_contents (map content mb) n)"
proof (induction mb arbitrary: n)
  case (Cons b mb)
  then obtain b' e where r: "Buffer_Read b n = Some (b', take n (content b), e)" "buf_inv b'"
      "content b' = drop n (content b)"
    using Buffer_Read_content [of b n] by auto
  show ?case
  proof (cases "length (content b) > n")
    case True
    with r show ?thesis by (simp add: Buffer_IsEmpty_content)
  next
    case False
    from Cons.IH [of "n - length (content b)"] Cons.prems obtain mb' d' where
      "SplitBytes mb (n - length (content b)) = Some (mb', d')"
      "split_contents (map content mb) (n - length (content b)) = (map content mb', d')"
      by (cases "SplitBytes mb (n - length (content b))") auto
    with r False show ?thesis by (simp add: Buffer_IsEmpty_content)
  qed
qed simp

lemma MultiBuffer_Copy_spec:
  "mb_inv mb \<Longrightarrow> MultiBuffer_Copy mb n = Some (take n (mb_bytes mb))"
proof (induction mb arbitrary: n)
  case (Cons b mb)
  then show ?case
    by (cases "length (content b) \<le> n")
      (simp_all add: Buffer_Bytes_content Buffer_Len_content Let_def min_def)
qed simp

lemma MergeBytes_loop_spec:
  "mb_inv dest \<Longrightarrow> \<exists>mb. MergeBytes_loop pool k dest src = Some mb \<and> mb_inv mb \<and>
     mb_bytes mb = mb_bytes dest @ src"
proof (induction pool k dest src rule: MergeBytes_loop.induct)
  case (1 pool k dest src)
  show ?case
  proof (cases "src = []")
    case True
    with "1.prems" show ?thesis by (simp add: MergeBytes_loop.simps)
  next
    case False
    obtain b e where w: "Buffer_Write (Buffer_New (pool k)) src =
        Some (b, min buf_Size (length src), e)" "buf_inv b" "content b = take buf_Size src"
      using Buffer_Write_New [of "pool k" src] by blast
    from "1.IH" [OF False w(1) refl refl] "1.prems" w obtain mb where
      "MergeBytes_loop pool (Suc k) (dest @ [b]) (drop (min buf_Size (length src)) src) = Some mb"
      "mb_inv mb" "mb_bytes mb = mb_bytes (dest @ [b]) @ drop (min buf_Size (length src)) src"
      by auto
    with False w show ?thesis
      by (subst MergeBytes_loop.simps) (auto simp: min_def)
  qed
qed

lemma MergeBytes_spec:
  assumes "mb_inv dest"
  shows "\<exists>mb. MergeBytes pool dest src = Some mb \<and> mb_inv mb \<and> mb_bytes mb = mb_bytes dest @ src"
proof (cases "dest \<noteq> [] \<and> \<not> Buffer_IsFull (last dest)")
  case False
  then show ?thesis
    using MergeBytes_loop_spec [OF assms, of pool 0 src] by (auto simp: MergeBytes_def)
next
  case True
  then obtain d0 b0 where dest: "dest = d0 @ [b0]" by (metis append_butlast_last_id)
  obtain b m where w: "Buffer_Write b0 src = Some (b, m, if m < length src then Some ErrBufferFull else None)"
      "buf_inv b" "content b = content b0 @ take m src"
    using Buffer_Write_content [of b0 _ src] assms dest by fastforce
  then show ?thesis
    using True dest assms MergeBytes_loop_spec [of "d0 @ [b]" pool 0 "drop m src"]
    by (auto simp: MergeBytes_def)
qed

lemma Must_ReadFrom_spec:
  assumes "buf_inv lst" "buf_inv cur" "Buffer_Len cur \<le> Buffer_Available lst"
  shows "Must_ReadFrom lst cur = None \<longleftrightarrow> content cur = []"
    and "content cur \<noteq> [] \<Longrightarrow> \<exists>b. Must_ReadFrom lst cur = Some b \<and> buf_inv b \<and>
           content b = content lst @ content cur"
proof -
  let ?r = "length (bv lst) - nat (bend lst)"
  have slice: "go_slice (bv lst) (bend lst) (int (length (bv lst))) = Some (drop (nat (bend lst)) (bv lst))"
    using assms(1) by (simp add: go_slice_def buf_inv_def nat_diff_distrib)
  have len: "length (content cur) \<le> ?r" "nat (Buffer_Available lst) = ?r"
    using assms by (auto simp: Buffer_Len_content Buffer_Available_def buf_inv_def)
  obtain c' e where rd: "Buffer_Read cur ?r = Some (c', content cur, e)"
      "e = Some EOF \<longleftrightarrow> content cur = []"
    using Buffer_Read_content [OF assms(2), of ?r] len by auto
  have e: "e = None \<or> e = Some EOF"
    using rd(1) by (auto simp: Buffer_Read_def Let_def bind_eq_Some_conv split: if_splits)
  from slice rd e show "Must_ReadFrom lst cur = None \<longleftrightarrow> content cur = []"
    by (auto simp: Must_ReadFrom_def)
  assume "content cur \<noteq> []"
  with slice rd e show "\<exists>b. Must_ReadFrom lst cur = Some b \<and> buf_inv b \<and>
      content b = content lst @ content cur"
    using Buffer_Write_content [OF assms(1) refl, of "content cur"] len
    by (auto simp: Must_ReadFrom_def Buffer_Write_def min_absorb2 bind_eq_Some_conv Let_def)
qed

lemma Compact_loop_spec:
  assumes "mb_inv mb2" "buf_inv lst" "mb_inv mb"
  shows "if \<exists>b \<in> set mb. content b = [] then Compact_loop mb2 lst mb = None
         else \<exists>r. Compact_loop mb2 lst mb = Some r \<and> mb_inv r \<and>
                mb_bytes r = mb_bytes mb2 @ content lst @ mb_bytes mb \<and>
                length r \<le> length mb2 + 1 + length mb"
  using assms
proof (induction mb2 lst mb rule: Compact_loop.induct)
  case (2 mb2 lst cur mb)
  show ?case
  proof (cases "Buffer_Len cur > Buffer_Available lst")
    case True
    then have "content cur \<noteq> []"
      using 2 Buffer_Available_nonneg [of lst] by (auto simp: Buffer_Len_content)
    with True 2 show ?thesis by (auto split: if_splits)
  next
    case False
    show ?thesis
    proof (cases "content cur = []")
      case True
      with False 2 Must_ReadFrom_spec(1) [of lst cur] show ?thesis by simp
    next
      case ne: False
      with False 2 Must_ReadFrom_spec(2) [of lst cur] obtain b where
        b: "Must_ReadFrom lst cur = Some b" "buf_inv b" "content b = content lst @ content cur"
        by auto
      with False ne 2 show ?thesis by (fastforce split: if_splits)
    qed
  qed
qed auto

lemma i32_add_Len:
  assumes "fits b" "0 \<le> t" "t \<le> 2 ^ 30"
  shows "i32 (t + Buffer_Len b) = t + int (length (content b))"
proof -
  have "Buffer_Len b \<le> bend b" using assms(1) by (auto simp: fits_def buf_inv_def Buffer_Len_def)
  with fits_bend [OF assms(1)] assms show ?thesis
    by (simp add: Buffer_Len_content i32_id)
qed

lemma SplitSize_loop_spec:
  assumes "list_all fits mb" "SplitSize_loop sz t mb = (rest, r)" "0 \<le> t" "t \<le> sz" "sz \<le> 2 ^ 30"
  shows "r @ rest = mb \<and> t + int (length (mb_bytes r)) \<le> sz \<and>
     (rest \<noteq> [] \<longrightarrow> t + int (length (mb_bytes r)) + Buffer_Len (hd rest) > sz)"
  using assms
proof (induction sz t mb arbitrary: rest r rule: SplitSize_loop.induct)
  case (2 sz t b mb)
  have w: "i32 (t + Buffer_Len b) = t + int (length (content b))"
    using "2.prems" by (intro i32_add_Len) auto
  show ?case
  proof (cases "i32 (t + Buffer_Len b) > sz")
    case False
    then obtain rest' r' where rr: "SplitSize_loop sz (i32 (t + Buffer_Len b)) mb = (rest', r')"
        "rest = rest'" "r = b # r'"
      using "2.prems"(2) by (auto simp: Let_def split: prod.splits)
    with "2.IH" [of rest' r'] False "2.prems" w show ?thesis by auto
  qed (use 2 w in \<open>auto simp: Buffer_Len_content\<close>)
qed simp

lemma SplitSize_first:
  assumes "fits b0" "0 \<le> sz" "sz \<le> int buf_Size" "Buffer_Len b0 > sz"
  shows "\<exists>b. SplitSize p (b0 # mb0) sz = Some (Buffer_Advance b0 sz # mb0, [b]) \<and> fits b \<and>
           content b = take (nat sz) (content b0) \<and> fits (Buffer_Advance b0 sz) \<and>
           content (Buffer_Advance b0 sz) = drop (nat sz) (content b0)"
proof -
  obtain n where n: "sz = int n"
    using assms(2) by (metis nonneg_int_cases)
  have inv: "buf_inv b0" using assms(1) by simp
  with assms n have le: "n \<le> length (content b0)" "n \<le> buf_Size"
    by (auto simp: Buffer_Len_content)
  obtain e where e: "Buffer_Extend (Buffer_New p) (int n) = Some e"
      "\<forall>d. length d = n \<longrightarrow> fits (Buffer_fill e 0 d) \<and> content (Buffer_fill e 0 d) = d"
    using Buffer_Extend_New [OF le(2), of p] by blast
  have "bend b0 < 2 ^ 31" using fits_bend [OF assms(1)] by simp
  note adv = Buffer_Advance_content [OF inv le(1) this]
  have "fits (Buffer_Advance b0 (int n))"
    using adv assms(1) by (simp add: fits_def)
  with le n assms e Buffer_BytesTo_content [OF inv le(1)] adv
  show ?thesis by (simp add: SplitSize_def)
qed

section \<open>Properties\<close>

text \<open>Reading from a list of buffers into a slice of \<open>n\<close> bytes never panics, delivers exactly
  the first \<open>n\<close> bytes of the stream and leaves exactly the others, with no empty buffer in front.\<close>

lemma SplitBytes_correct:
  assumes "mb_inv mb"
  shows "\<exists>mb'. SplitBytes mb n = Some (mb', take n (mb_bytes mb)) \<and> mb_inv mb' \<and>
           mb_bytes mb' = drop n (mb_bytes mb) \<and> (mb' = [] \<or> content (hd mb') \<noteq> [])"
  using assms by (rule SplitBytes_spec)

lemma SplitBytes_correct_witness:
  "\<exists>mb'. SplitBytes [Buffer_FromBytes [1, 2], Buffer_FromBytes [3, 4]] 3 = Some (mb', [1, 2, 3]) \<and>
     mb_bytes mb' = [4]"
  using SplitBytes_correct [of "[Buffer_FromBytes [1, 2], Buffer_FromBytes [3, 4]]" 3]
  by (auto simp: buf_inv_FromBytes)

lemma SplitSize_spec:
  assumes "list_all fits mb" "mb \<noteq> []" "0 \<le> sz" "sz \<le> int buf_Size"
  shows "\<exists>rest r. SplitSize p mb sz = Some (rest, r) \<and> list_all fits rest \<and> list_all fits r \<and>
     mb_bytes r @ mb_bytes rest = mb_bytes mb \<and> int (length (mb_bytes r)) \<le> sz \<and>
     (Buffer_Len (hd mb) > sz \<longrightarrow> int (length (mb_bytes r)) = sz \<and> length rest = length mb) \<and>
     (Buffer_Len (hd mb) \<le> sz \<longrightarrow> r \<noteq> [] \<and> r @ rest = mb \<and>
        (rest \<noteq> [] \<longrightarrow> int (length (mb_bytes r)) + Buffer_Len (hd rest) > sz)) \<and>
     (0 < sz \<longrightarrow> length (mb_bytes rest) + length rest < length (mb_bytes mb) + length mb)"
proof -
  obtain b0 mb0 where mb: "mb = b0 # mb0"
    using assms(2) by (cases mb) auto
  show ?thesis
  proof (cases "Buffer_Len b0 > sz")
    case True
    with SplitSize_first [of b0 sz p mb0] assms mb show ?thesis
      by (auto simp: Buffer_Len_content min_def)
  next
    case False
    obtain rest r where l: "SplitSize_loop sz 0 mb = (rest, r)" by fastforce
    have sp: "r @ rest = mb" "int (length (mb_bytes r)) \<le> sz"
        "rest \<noteq> [] \<longrightarrow> int (length (mb_bytes r)) + Buffer_Len (hd rest) > sz"
      using SplitSize_loop_spec [OF assms(1) l _ assms(3)] assms(4) by (auto simp: buf_Size_def)
    have "i32 (0 + Buffer_Len b0) = Buffer_Len b0"
      using assms(1) mb i32_add_Len [of b0 0] by (simp add: Buffer_Len_content)
    then have ne: "r \<noteq> []"
      using l mb False by (auto simp: Let_def split: prod.splits)
    have "list_all fits r" "list_all fits rest" "mb_bytes r @ mb_bytes rest = mb_bytes mb"
      using assms(1) unfolding sp(1) [symmetric] by simp_all
    moreover have "length (mb_bytes rest) + length rest < length (mb_bytes mb) + length mb"
      unfolding sp(1) [symmetric] using ne by simp
    ultimately show ?thesis
      using mb False l sp ne by (simp add: SplitSize_def)
  qed
qed

text \<open>C24: splitting off at most \<open>sz\<close> bytes, for \<open>sz\<close> up to the 8 KiB of a buffer (a first buffer
  longer than a larger \<open>sz\<close> makes \<open>Extend\<close> panic), loses and reorders nothing and respects the
  limit. A first buffer longer than the limit is cut at exactly \<open>sz\<close> bytes; otherwise the longest
  run of whole buffers within the limit is taken. For a positive limit the call always makes progress:
  bytes, or at least an empty buffer, leave the list. (Buffers of less than 1 GiB, so that lengths add up in
  32 bits.)\<close>

theorem SplitSize_correct:
  assumes "list_all fits mb" "mb \<noteq> []" "0 \<le> sz" "sz \<le> int buf_Size"
  shows "\<exists>rest r. SplitSize p mb sz = Some (rest, r) \<and> list_all fits rest \<and> list_all fits r \<and>
     mb_bytes r @ mb_bytes rest = mb_bytes mb \<and> int (length (mb_bytes r)) \<le> sz \<and>
     (Buffer_Len (hd mb) > sz \<longrightarrow> int (length (mb_bytes r)) = sz \<and> length rest = length mb) \<and>
     (Buffer_Len (hd mb) \<le> sz \<longrightarrow> r \<noteq> [] \<and> r @ rest = mb \<and>
        (rest \<noteq> [] \<longrightarrow> int (length (mb_bytes r)) + Buffer_Len (hd rest) > sz)) \<and>
     (0 < sz \<longrightarrow> length (mb_bytes rest) + length rest < length (mb_bytes mb) + length mb)"
  using assms by (rule SplitSize_spec)

theorem SplitSize_correct_witness:
  "\<exists>rest r. SplitSize [] [Buffer_FromBytes [1, 2, 3], Buffer_FromBytes [4]] 2 = Some (rest, r) \<and>
     length (mb_bytes r) = 2 \<and> mb_bytes r @ mb_bytes rest = [1, 2, 3, 4]"
  using SplitSize_correct [of "[Buffer_FromBytes [1, 2, 3], Buffer_FromBytes [4]]" 2 "[]"]
  by (auto simp: fits_FromBytes buf_inv_FromBytes buf_Size_def Buffer_Len_content)

text \<open>C25: \<open>Compact\<close> keeps the stream and never lengthens the list, but it panics exactly when a
  buffer after the first one is empty: \<open>last.ReadFrom(curr)\<close> then returns \<open>io.EOF\<close>, which
  \<open>common.Must2\<close> turns into a panic.\<close>

theorem Compact_correct:
  assumes "mb_inv mb"
  shows "(Compact mb = None \<longleftrightarrow> (\<exists>b \<in> set (tl mb). content b = [])) \<and>
    (\<forall>r. Compact mb = Some r \<longrightarrow> mb_inv r \<and> mb_bytes r = mb_bytes mb \<and> length r \<le> length mb)"
proof (cases mb)
  case (Cons b mb')
  with assms Compact_loop_spec [of "[]" b mb'] show ?thesis
    by (auto split: if_splits)
qed simp

theorem Compact_correct_witness:
  "Compact [Buffer_FromBytes [1], Buffer_FromBytes []] = None"
  using Compact_correct [of "[Buffer_FromBytes [1], Buffer_FromBytes []]"]
  by (simp add: buf_inv_FromBytes)

text \<open>What is written into a \<open>MultiBufferContainer\<close> is appended to its stream, for any
  contents of the recycled arrays, and reading returns the oldest bytes first.\<close>

lemma Container_write_read:
  assumes "mb_inv mb" "mb_bytes mb @ d \<noteq> []"
  shows "\<exists>mb1 mb2. Container_Write pool mb d = Some (mb1, length d) \<and>
     mb_bytes mb1 = mb_bytes mb @ d \<and>
     Container_Read mb1 n = Some (mb2, take n (mb_bytes mb @ d), None) \<and>
     mb_bytes mb2 = drop n (mb_bytes mb @ d) \<and> mb_inv mb2"
proof -
  obtain mb1 where m: "MergeBytes pool mb d = Some mb1" "mb_inv mb1" "mb_bytes mb1 = mb_bytes mb @ d"
    using MergeBytes_spec [OF assms(1), of pool d] by blast
  moreover obtain mb2 where "SplitBytes mb1 n = Some (mb2, take n (mb_bytes mb1))" "mb_inv mb2"
      "mb_bytes mb2 = drop n (mb_bytes mb1)"
    using SplitBytes_spec [OF m(2), of n] by blast
  ultimately show ?thesis
    using assms(2) MultiBuffer_IsEmpty_bytes [OF m(2)]
    by (auto simp: Container_Write_def Container_Read_def)
qed

lemma Container_write_read_witness:
  "\<exists>mb1 mb2. Container_Write (\<lambda>_. []) [] [7, 8] = Some (mb1, 2) \<and>
     Container_Read mb1 1 = Some (mb2, [7], None)"
  using Container_write_read [of "[]" "[7, 8]" "\<lambda>_. []" 1] by auto

end
