(* ===== verification/Kcp_Segment.thy ===== *)
theory Kcp_Segment
  imports Buf
begin

text \<open>
  \<open>transport/internet/kcp/segment.go\<close>, \<open>io.go\<close> and \<open>output.go\<close>: the three kinds of mKCP segments, their
  serialiser and parser, and the loop that splits a datagram into segments. A segment's payload
  (a \<open>*buf.Buffer\<close>) is its contents; \<open>Data().Write\<close> truncates at the buffer's 8192 bytes, as
  the code does. The fields \<open>timeout\<close> and \<open>transmit\<close> are the sender's own and are not on the
  wire: \<open>wire\<close> is what a segment is to its receiver. The codec is an instance of \<open>prefix_codec\<close>,
  the datagram loop of \<open>packet_reader\<close>.
\<close>

section \<open>Segments\<close>

type_synonym command = byte

definition CommandACK :: command where "CommandACK = 0"
definition CommandData :: command where "CommandData = 1"
definition CommandTerminate :: command where "CommandTerminate = 2"
definition CommandPing :: command where "CommandPing = 3"

definition SegmentOptionClose :: byte where "SegmentOptionClose = 1"

definition DataSegmentOverhead :: u32 where "DataSegmentOverhead = 18"

record data_segment =
  d_Conv :: u16
  d_Option :: byte
  d_Timestamp :: u32
  d_Number :: u32
  d_SendingNext :: u32
  d_payload :: bytes
  d_timeout :: u32
  d_transmit :: u32

definition NewDataSegment :: data_segment where
  "NewDataSegment = \<lparr>d_Conv = 0, d_Option = 0, d_Timestamp = 0, d_Number = 0, d_SendingNext = 0,
     d_payload = [], d_timeout = 0, d_transmit = 0\<rparr>"

record ack_segment =
  a_Conv :: u16
  a_Option :: byte
  a_ReceivingWindow :: u32
  a_ReceivingNext :: u32
  a_Timestamp :: u32
  a_NumberList :: "u32 list"
  a_Limit :: int

definition ackNumberLimit :: int where
  "ackNumberLimit = 128"

definition NewAckSegment :: "int \<Rightarrow> ack_segment" where
  "NewAckSegment limit =
     (let l1 = (if limit \<le> 0 then 1 else limit);
          l2 = (if l1 > ackNumberLimit then ackNumberLimit else l1)
      in \<lparr>a_Conv = 0, a_Option = 0, a_ReceivingWindow = 0, a_ReceivingNext = 0, a_Timestamp = 0,
          a_NumberList = [], a_Limit = l2\<rparr>)"

definition PutTimestamp :: "ack_segment \<Rightarrow> u32 \<Rightarrow> ack_segment" where
  "PutTimestamp s t = (if t - a_Timestamp s < 0x7FFFFFFF then s\<lparr>a_Timestamp := t\<rparr> else s)"

definition PutNumber :: "ack_segment \<Rightarrow> u32 \<Rightarrow> ack_segment" where
  "PutNumber s n = s\<lparr>a_NumberList := a_NumberList s @ [n]\<rparr>"

definition ack_IsFull :: "ack_segment \<Rightarrow> bool" where
  "ack_IsFull s = (int (length (a_NumberList s)) = a_Limit s)"

definition ack_IsEmpty :: "ack_segment \<Rightarrow> bool" where
  "ack_IsEmpty s = (length (a_NumberList s) = 0)"

record cmd_segment =
  c_Conv :: u16
  c_Cmd :: command
  c_Option :: byte
  c_SendingNext :: u32
  c_ReceivingNext :: u32
  c_PeerRTO :: u32

definition NewCmdOnlySegment :: cmd_segment where
  "NewCmdOnlySegment = \<lparr>c_Conv = 0, c_Cmd = 0, c_Option = 0, c_SendingNext = 0,
     c_ReceivingNext = 0, c_PeerRTO = 0\<rparr>"

datatype segment = Data data_segment | Ack ack_segment | CmdOnly cmd_segment

fun Conversation :: "segment \<Rightarrow> u16" where
  "Conversation (Data s) = d_Conv s"
| "Conversation (Ack s) = a_Conv s"
| "Conversation (CmdOnly s) = c_Conv s"

fun Command :: "segment \<Rightarrow> command" where
  "Command (Data s) = CommandData"
| "Command (Ack s) = CommandACK"
| "Command (CmdOnly s) = c_Cmd s"

section \<open>Serialising\<close>

definition data_ByteSize :: "data_segment \<Rightarrow> nat" where
  "data_ByteSize s = 2 + 1 + 1 + 4 + 4 + 4 + 2 + length (d_payload s)"

definition data_Serialize :: "data_segment \<Rightarrow> bytes" where
  "data_Serialize s =
     put_u16 (d_Conv s) @ [CommandData, d_Option s] @
     put_u32 (d_Timestamp s) @ put_u32 (d_Number s) @ put_u32 (d_SendingNext s) @
     put_u16 (of_nat (length (d_payload s))) @ d_payload s"

definition ack_ByteSize :: "ack_segment \<Rightarrow> nat" where
  "ack_ByteSize s = 2 + 1 + 1 + 4 + 4 + 4 + 1 + length (a_NumberList s) * 4"

definition ack_Serialize :: "ack_segment \<Rightarrow> bytes" where
  "ack_Serialize s =
     put_u16 (a_Conv s) @ [CommandACK, a_Option s] @
     put_u32 (a_ReceivingWindow s) @ put_u32 (a_ReceivingNext s) @ put_u32 (a_Timestamp s) @
     [of_nat (length (a_NumberList s))] @ concat (map put_u32 (a_NumberList s))"

definition cmd_ByteSize :: "cmd_segment \<Rightarrow> nat" where
  "cmd_ByteSize s = 2 + 1 + 1 + 4 + 4 + 4"

definition cmd_Serialize :: "cmd_segment \<Rightarrow> bytes" where
  "cmd_Serialize s =
     put_u16 (c_Conv s) @ [c_Cmd s, c_Option s] @
     put_u32 (c_SendingNext s) @ put_u32 (c_ReceivingNext s) @ put_u32 (c_PeerRTO s)"

fun ByteSize :: "segment \<Rightarrow> nat" where
  "ByteSize (Data s) = data_ByteSize s"
| "ByteSize (Ack s) = ack_ByteSize s"
| "ByteSize (CmdOnly s) = cmd_ByteSize s"

fun Serialize :: "segment \<Rightarrow> bytes" where
  "Serialize (Data s) = data_Serialize s"
| "Serialize (Ack s) = ack_Serialize s"
| "Serialize (CmdOnly s) = cmd_Serialize s"

text \<open>
  \<open>SimpleSegmentWriter.Write\<close> serialises into its one 8 KiB buffer: \<open>Extend\<close> panics
  (\<open>None\<close>) on a segment that does not fit.
\<close>

definition SegmentWriter_Write :: "segment \<Rightarrow> bytes option" where
  "SegmentWriter_Write seg = (if ByteSize seg > buf_Size then None else Some (Serialize seg))"

section \<open>Parsing\<close>

definition data_parse :: "u16 \<Rightarrow> command \<Rightarrow> byte \<Rightarrow> bytes \<Rightarrow> (data_segment \<times> bytes) option" where
  "data_parse conv cmd opt buf =
     (if length buf < 15 then None
      else let ts = get_u32 buf; buf = drop 4 buf;
               num = get_u32 buf; buf = drop 4 buf;
               sn = get_u32 buf; buf = drop 4 buf;
               dataLen = unat (get_u16 buf); buf = drop 2 buf
           in if length buf < dataLen then None
              else Some (NewDataSegment\<lparr>d_Conv := conv, d_Option := opt, d_Timestamp := ts,
                           d_Number := num, d_SendingNext := sn,
                           d_payload := take buf_Size (take dataLen buf)\<rparr>,
                         drop dataLen buf))"

fun ack_parse_numbers :: "nat \<Rightarrow> ack_segment \<Rightarrow> bytes \<Rightarrow> ack_segment \<times> bytes" where
  "ack_parse_numbers 0 s buf = (s, buf)"
| "ack_parse_numbers (Suc n) s buf = ack_parse_numbers n (PutNumber s (get_u32 buf)) (drop 4 buf)"

definition ack_parse :: "u16 \<Rightarrow> command \<Rightarrow> byte \<Rightarrow> bytes \<Rightarrow> (ack_segment \<times> bytes) option" where
  "ack_parse conv cmd opt buf =
     (if length buf < 13 then None
      else let rw = get_u32 buf; buf = drop 4 buf;
               rn = get_u32 buf; buf = drop 4 buf;
               ts = get_u32 buf; buf = drop 4 buf;
               count = unat (hd buf); buf = drop 1 buf
           in if length buf < count * 4 then None
              else Some (ack_parse_numbers count
                     ((NewAckSegment 128)\<lparr>a_Conv := conv, a_Option := opt,
                        a_ReceivingWindow := rw, a_ReceivingNext := rn, a_Timestamp := ts\<rparr>) buf))"

definition cmd_parse :: "u16 \<Rightarrow> command \<Rightarrow> byte \<Rightarrow> bytes \<Rightarrow> (cmd_segment \<times> bytes) option" where
  "cmd_parse conv cmd opt buf =
     (if length buf < 12 then None
      else let sn = get_u32 buf; buf = drop 4 buf;
               rn = get_u32 buf; buf = drop 4 buf;
               rto = get_u32 buf; buf = drop 4 buf
           in Some (\<lparr>c_Conv = conv, c_Cmd = cmd, c_Option = opt, c_SendingNext = sn,
                     c_ReceivingNext = rn, c_PeerRTO = rto\<rparr>, buf))"

definition ReadSegment :: "bytes \<Rightarrow> (segment \<times> bytes) option" where
  "ReadSegment buf =
     (if length buf < 4 then None
      else let conv = get_u16 buf; buf = drop 2 buf;
               cmd = buf ! 0; opt = buf ! 1; buf = drop 2 buf
           in if cmd = CommandData then map_option (map_prod Data id) (data_parse conv cmd opt buf)
              else if cmd = CommandACK then map_option (map_prod Ack id) (ack_parse conv cmd opt buf)
              else map_option (map_prod CmdOnly id) (cmd_parse conv cmd opt buf))"

lemma ack_parse_numbers_rest: "snd (ack_parse_numbers n s buf) = drop (4 * n) buf"
  by (induction n s buf rule: ack_parse_numbers.induct) (simp_all add: add.commute)

lemma ReadSegment_shorter: "ReadSegment buf = Some (s, x) \<Longrightarrow> length x < length buf"
  using ack_parse_numbers_rest
  by (auto simp: ReadSegment_def data_parse_def ack_parse_def cmd_parse_def Let_def
      split: if_splits dest!: arg_cong [where f = snd])

text \<open>\<open>KCPPacketReader.Read\<close>.\<close>

function PacketReader_Read :: "bytes \<Rightarrow> segment list" where
  "PacketReader_Read b =
     (if b = [] then []
      else case ReadSegment b of None \<Rightarrow> [] | Some (seg, x) \<Rightarrow> seg # PacketReader_Read x)"
  by pat_completeness auto
termination
  by (relation "measure length") (auto simp: ReadSegment_shorter)

declare PacketReader_Read.simps [simp del]

section \<open>The codec\<close>

fun wire :: "segment \<Rightarrow> segment" where
  "wire (Data s) = Data (s\<lparr>d_timeout := 0, d_transmit := 0\<rparr>)"
| "wire (Ack s) = Ack (s\<lparr>a_Limit := 128\<rparr>)"
| "wire (CmdOnly s) = CmdOnly s"

text \<open>
  What the segment writer can be given: an acknowledgement counts its numbers in one byte, a
  payload fits a buffer, and a command-only segment has neither of the two other commands. A
  data segment without payload is not parsed: \<open>parse\<close> asks for 15 bytes after the common
  header where an empty payload leaves 14.
\<close>

fun wf_segment :: "segment \<Rightarrow> bool" where
  "wf_segment (Data s) = (d_payload s \<noteq> [] \<and> length (d_payload s) \<le> buf_Size)"
| "wf_segment (Ack s) = (length (a_NumberList s) < 256)"
| "wf_segment (CmdOnly s) = (c_Cmd s \<noteq> CommandData \<and> c_Cmd s \<noteq> CommandACK)"

lemma length_Serialize: "length (Serialize s) = ByteSize s"
  by (cases s) (auto simp: data_Serialize_def ack_Serialize_def cmd_Serialize_def data_ByteSize_def
      ack_ByteSize_def cmd_ByteSize_def length_concat comp_def sum_list_triv)

lemma ack_parse_numbers_put:
  "ack_parse_numbers (length ns) s (concat (map put_u32 ns) @ r) =
     (s\<lparr>a_NumberList := a_NumberList s @ ns\<rparr>, r)"
  by (induction ns arbitrary: s) (simp_all add: PutNumber_def)

lemma unat_length_u16: "n \<le> buf_Size \<Longrightarrow> unat (of_nat n :: u16) = n"
  by (simp add: buf_Size_def unat_of_nat take_bit_eq_mod)

lemma unat_length_u8: "n < 256 \<Longrightarrow> unat (of_nat n :: byte) = n"
  by (simp add: unat_of_nat take_bit_eq_mod)

lemma data_parse_Serialize:
  assumes "d_payload s \<noteq> []" "length (d_payload s) \<le> buf_Size"
  shows "data_parse (d_Conv s) cmd (d_Option s) (drop 4 (data_Serialize s @ r)) =
           Some (s\<lparr>d_timeout := 0, d_transmit := 0\<rparr>, r)"
proof -
  have "Suc 0 \<le> length (d_payload s)"
    using assms(1) by (cases "d_payload s") auto
  with assms show ?thesis
    by (simp add: data_parse_def data_Serialize_def Let_def unat_length_u16 put_u16_def [of "d_Conv s"]
        NewDataSegment_def)
qed

lemma ack_parse_Serialize:
  assumes "length (a_NumberList s) < 256"
  shows "ack_parse (a_Conv s) cmd (a_Option s) (drop 4 (ack_Serialize s @ r)) =
           Some (s\<lparr>a_Limit := 128\<rparr>, r)"
proof -
  have len: "length (concat (map put_u32 ns)) = 4 * length ns" for ns
    by (simp add: length_concat comp_def sum_list_triv)
  show ?thesis
    using assms
    by (simp add: ack_parse_def ack_Serialize_def Let_def unat_length_u8 put_u16_def [of "a_Conv s"]
        ack_parse_numbers_put len NewAckSegment_def ackNumberLimit_def)
qed

lemma cmd_parse_Serialize:
  "cmd_parse (c_Conv s) (c_Cmd s) (c_Option s) (drop 4 (cmd_Serialize s @ r)) = Some (s, r)"
  by (simp add: cmd_parse_def cmd_Serialize_def Let_def put_u16_def [of "c_Conv s"])

lemma ReadSegment_header:
  "ReadSegment (put_u16 conv @ [cmd, opt] @ rest) =
     (if cmd = CommandData then map_option (map_prod Data id) (data_parse conv cmd opt rest)
      else if cmd = CommandACK then map_option (map_prod Ack id) (ack_parse conv cmd opt rest)
      else map_option (map_prod CmdOnly id) (cmd_parse conv cmd opt rest))"
  by (simp add: ReadSegment_def Let_def)

lemma ReadSegment_Serialize:
  assumes "wf_segment s"
  shows "ReadSegment (Serialize s @ r) = Some (wire s, r)"
proof (cases s)
  case (Data d)
  with assms data_parse_Serialize [of d CommandData r] show ?thesis
    using ReadSegment_header [of "d_Conv d" CommandData "d_Option d"]
    by (simp add: data_Serialize_def put_u16_def [of "d_Conv d"])
next
  case (Ack a)
  with assms ack_parse_Serialize [of a CommandACK r] show ?thesis
    using ReadSegment_header [of "a_Conv a" CommandACK "a_Option a"]
    by (simp add: ack_Serialize_def put_u16_def [of "a_Conv a"] CommandACK_def CommandData_def)
next
  case (CmdOnly c)
  with assms cmd_parse_Serialize [of c r] show ?thesis
    using ReadSegment_header [of "c_Conv c" "c_Cmd c" "c_Option c"]
    by (simp add: cmd_Serialize_def put_u16_def [of "c_Conv c"])
qed

lemma Serialize_nonempty: "Serialize s \<noteq> []"
proof -
  have "0 < ByteSize s"
    by (cases s) (simp_all add: data_ByteSize_def ack_ByteSize_def cmd_ByteSize_def)
  then show ?thesis
    by (metis length_Serialize list.size(3) less_irrefl)
qed

interpretation kcp: packet_reader Serialize ReadSegment wire wf_segment PacketReader_Read
  by unfold_locales (rule ReadSegment_Serialize Serialize_nonempty PacketReader_Read.simps | assumption)+

lemma PacketReader_short: "length b < 4 \<Longrightarrow> PacketReader_Read b = []"
  by (subst PacketReader_Read.simps) (simp add: ReadSegment_def)

section \<open>Properties\<close>

text \<open>C8: a datagram that is the concatenation of any number of serialised segments, followed by
  bytes that are no segment, is read back as exactly those segments, in order.\<close>

theorem kcp_datagram_roundtrip:
  assumes "list_all wf_segment ss" and "ReadSegment g = None"
  shows "PacketReader_Read (concat (map Serialize ss) @ g) = map wire ss"
  using assms by (rule kcp.loop_garbage)

theorem kcp_datagram_roundtrip_witness:
  "PacketReader_Read (Serialize (Data (NewDataSegment\<lparr>d_Number := 7, d_payload := [1, 2]\<rparr>)) @
       Serialize (CmdOnly (NewCmdOnlySegment\<lparr>c_Cmd := CommandPing\<rparr>)) @ [0]) =
     [Data (NewDataSegment\<lparr>d_Number := 7, d_payload := [1, 2]\<rparr>),
      CmdOnly (NewCmdOnlySegment\<lparr>c_Cmd := CommandPing\<rparr>)]"
  using kcp_datagram_roundtrip [of "[Data (NewDataSegment\<lparr>d_Number := 7, d_payload := [1, 2]\<rparr>),
      CmdOnly (NewCmdOnlySegment\<lparr>c_Cmd := CommandPing\<rparr>)]" "[0]"]
  by (simp add: NewDataSegment_def NewCmdOnlySegment_def buf_Size_def CommandPing_def
      CommandData_def CommandACK_def ReadSegment_def)

text \<open>The announced size of a segment is the size of what is written, the segment writer never
  panics on a segment whose payload leaves room for the 18 bytes of header in the 8 KiB buffer,
  and the peer's parser returns the written segment.\<close>

lemma segment_writer_total:
  assumes "wf_segment s" and "\<And>d. s = Data d \<Longrightarrow> length (d_payload d) \<le> buf_Size - 18"
  shows "\<exists>b. SegmentWriter_Write s = Some b \<and> length b = ByteSize s \<and> PacketReader_Read b = [wire s]"
proof -
  have "ByteSize s \<le> buf_Size"
    using assms
    by (cases s) (auto simp: data_ByteSize_def ack_ByteSize_def cmd_ByteSize_def buf_Size_def)
  then show ?thesis
    using kcp.loop_packet [of "[s]"] assms(1) by (simp add: SegmentWriter_Write_def length_Serialize)
qed

lemma segment_writer_total_witness:
  "\<exists>b. SegmentWriter_Write (Ack (PutNumber (NewAckSegment 128) 5)) = Some b \<and>
     PacketReader_Read b = [Ack (PutNumber (NewAckSegment 128) 5)]"
  using segment_writer_total [of "Ack (PutNumber (NewAckSegment 128) 5)"]
  by (auto simp: PutNumber_def NewAckSegment_def ackNumberLimit_def)

end
