(* ===== verification/Kcp_Sending.thy ===== *)
theory Kcp_Sending
  imports Kcp_Segment
begin

text \<open>
  \<open>transport/internet/kcp/sending.go\<close>: the sending window and the sending worker of an mKCP
  connection. The window's \<open>container/list\<close> is a list; what the worker reads of its connection
  (conversation number, whether it is closing, the retransmission timeout, the configuration) is
  the record \<open>send_env\<close>, constant while the worker's lock is held; what it does to the
  connection (segments handed to \<open>conn.output\<close>, the round-trip sample, the ping) is returned.
  Numbers are the code's \<open>uint32\<close>, with its comparisons as written: some allow for wrap-around
  and some do not.
\<close>

section \<open>The sending window\<close>

record sending_window =
  cache :: "data_segment list"
  totalInFlightSize :: u32

definition NewSendingWindow :: sending_window where
  "NewSendingWindow = \<lparr>cache = [], totalInFlightSize = 0\<rparr>"

definition SendingWindow_Release :: "sending_window \<Rightarrow> sending_window" where
  "SendingWindow_Release sw = sw\<lparr>cache := []\<rparr>"

definition SendingWindow_Len :: "sending_window \<Rightarrow> u32" where
  "SendingWindow_Len sw = of_nat (length (cache sw))"

definition SendingWindow_IsEmpty :: "sending_window \<Rightarrow> bool" where
  "SendingWindow_IsEmpty sw = (cache sw = [])"

definition SendingWindow_Push :: "sending_window \<Rightarrow> u32 \<Rightarrow> bytes \<Rightarrow> sending_window" where
  "SendingWindow_Push sw number b =
     sw\<lparr>cache := cache sw @ [NewDataSegment\<lparr>d_Number := number, d_payload := b\<rparr>]\<rparr>"

text \<open>Called on a non-empty window only.\<close>

definition FirstNumber :: "sending_window \<Rightarrow> u32" where
  "FirstNumber sw = d_Number (hd (cache sw))"

fun Clear_loop :: "u32 \<Rightarrow> data_segment list \<Rightarrow> data_segment list" where
  "Clear_loop una [] = []"
| "Clear_loop una (seg # l) = (if d_Number seg \<ge> una then seg # l else Clear_loop una l)"

definition SendingWindow_Clear :: "sending_window \<Rightarrow> u32 \<Rightarrow> sending_window" where
  "SendingWindow_Clear sw una = sw\<lparr>cache := Clear_loop una (cache sw)\<rparr>"

text \<open>\<open>Visit\<close>: the visitor may change the segment it is given and its captured variables \<open>'s\<close>;
  it returns whether to go on.\<close>

fun Visit :: "('s \<Rightarrow> data_segment \<Rightarrow> data_segment \<times> 's \<times> bool) \<Rightarrow> 's \<Rightarrow> data_segment list \<Rightarrow>
    data_segment list \<times> 's" where
  "Visit visitor s [] = ([], s)"
| "Visit visitor s (seg # l) =
     (case visitor s seg of
        (seg', s', True) \<Rightarrow> let (l', s'') = Visit visitor s' l in (seg' # l', s'')
      | (seg', s', False) \<Rightarrow> (seg' # l, s'))"

definition FastAck_visitor :: "u32 \<Rightarrow> u32 \<Rightarrow> unit \<Rightarrow> data_segment \<Rightarrow> data_segment \<times> unit \<times> bool" where
  "FastAck_visitor number rto s seg =
     (if number = d_Number seg \<or> number - d_Number seg > 0x7FFFFFFF then (seg, s, False)
      else (if d_transmit seg > 0 \<and> d_timeout seg > rto div 3
            then seg\<lparr>d_timeout := d_timeout seg - rto div 3\<rparr> else seg, s, True))"

definition HandleFastAck :: "sending_window \<Rightarrow> u32 \<Rightarrow> u32 \<Rightarrow> sending_window" where
  "HandleFastAck sw number rto = sw\<lparr>cache := fst (Visit (FastAck_visitor number rto) () (cache sw))\<rparr>"

record flush_vars =
  f_total :: u32
  f_lost :: u32
  f_inFlight :: u32
  f_out :: "data_segment list"

text \<open>\<open>wr\<close> is \<open>sw.writer.Write\<close>: it fills in the segment's header fields and hands it to the output.\<close>

definition Flush_visitor ::
  "(data_segment \<Rightarrow> data_segment) \<Rightarrow> u32 \<Rightarrow> u32 \<Rightarrow> u32 \<Rightarrow> flush_vars \<Rightarrow> data_segment \<Rightarrow>
     data_segment \<times> flush_vars \<times> bool" where
  "Flush_visitor wr current rto maxInFlightSize v seg =
     (if current - d_timeout seg \<ge> 0x7FFFFFFF then (seg, v, True)
      else
        let v = (if d_transmit seg = 0 then v\<lparr>f_total := f_total v + 1\<rparr>
                 else v\<lparr>f_lost := f_lost v + 1\<rparr>);
            seg = wr (seg\<lparr>d_timeout := current + rto, d_Timestamp := current,
                          d_transmit := d_transmit seg + 1\<rparr>);
            v = v\<lparr>f_out := f_out v @ [seg], f_inFlight := f_inFlight v + 1\<rparr>
        in (seg, v, f_inFlight v < maxInFlightSize))"

text \<open>The window after the flush, the segments written and the loss rate reported, if any.\<close>

definition SendingWindow_Flush ::
  "(data_segment \<Rightarrow> data_segment) \<Rightarrow> sending_window \<Rightarrow> u32 \<Rightarrow> u32 \<Rightarrow> u32 \<Rightarrow>
     sending_window \<times> data_segment list \<times> u32 option" where
  "SendingWindow_Flush wr sw current rto maxInFlightSize =
     (if SendingWindow_IsEmpty sw then (sw, [], None)
      else
        let (l, v) = Visit (Flush_visitor wr current rto maxInFlightSize)
                       \<lparr>f_total = totalInFlightSize sw, f_lost = 0, f_inFlight = 0, f_out = []\<rparr> (cache sw)
        in (sw\<lparr>cache := l, totalInFlightSize := f_total v\<rparr>, f_out v,
            if f_inFlight v > 0 \<and> f_total v \<noteq> 0 then Some (f_lost v * 100 div f_total v) else None))"

fun Remove_loop :: "u32 \<Rightarrow> data_segment list \<Rightarrow> data_segment list option" where
  "Remove_loop number [] = None"
| "Remove_loop number (seg # l) =
     (if d_Number seg > number then None
      else if d_Number seg = number then Some l
      else map_option ((#) seg) (Remove_loop number l))"

definition SendingWindow_Remove :: "sending_window \<Rightarrow> u32 \<Rightarrow> sending_window \<times> bool" where
  "SendingWindow_Remove sw number =
     (case Remove_loop number (cache sw) of
        None \<Rightarrow> (sw, False)
      | Some l \<Rightarrow>
          (sw\<lparr>cache := l,
              totalInFlightSize := (if totalInFlightSize sw > 0 then totalInFlightSize sw - 1
                                    else totalInFlightSize sw)\<rparr>, True))"

section \<open>The sending worker\<close>

record send_env =
  e_Conversation :: u16
  e_ReadyToClose :: bool
  e_rto :: u32
  e_Congestion :: bool
  e_InFlight :: u32

record sending_worker =
  window :: sending_window
  firstUnacknowledged :: u32
  nextNumber :: u32
  remoteNextNumber :: u32
  controlWindow :: u32
  fastResend :: u32
  windowSize :: u32
  firstUnacknowledgedUpdated :: bool
  w_closed :: bool

definition NewSendingWorker :: "u32 \<Rightarrow> u32 \<Rightarrow> sending_worker" where
  \<comment> \<open>the arguments are the configured in-flight size and buffer size, in segments\<close>
  "NewSendingWorker inFlight bufferSize =
     \<lparr>window = NewSendingWindow, firstUnacknowledged = 0, nextNumber = 0, remoteNextNumber = 32,
      controlWindow = inFlight, fastResend = 2, windowSize = bufferSize,
      firstUnacknowledgedUpdated = False, w_closed = False\<rparr>"

definition SendingWorker_Release :: "sending_worker \<Rightarrow> sending_worker" where
  "SendingWorker_Release w = w\<lparr>window := SendingWindow_Release (window w), w_closed := True\<rparr>"

definition FindFirstUnacknowledged :: "sending_worker \<Rightarrow> sending_worker" where
  "FindFirstUnacknowledged w =
     (let first = firstUnacknowledged w;
          new = (if \<not> SendingWindow_IsEmpty (window w) then FirstNumber (window w) else nextNumber w);
          w = w\<lparr>firstUnacknowledged := new\<rparr>
      in if first \<noteq> new then w\<lparr>firstUnacknowledgedUpdated := True\<rparr> else w)"

definition ProcessReceivingNext :: "sending_worker \<Rightarrow> u32 \<Rightarrow> sending_worker" where
  "ProcessReceivingNext w nxt =
     FindFirstUnacknowledged (w\<lparr>window := SendingWindow_Clear (window w) nxt\<rparr>)"

definition processAck :: "sending_worker \<Rightarrow> u32 \<Rightarrow> sending_worker \<times> bool" where
  "processAck w number =
     (if number - firstUnacknowledged w > 0x7FFFFFFF \<or> number - nextNumber w < 0x7FFFFFFF
      then (w, False)
      else let (sw, removed) = SendingWindow_Remove (window w) number;
               w = w\<lparr>window := sw\<rparr>
           in (if removed then FindFirstUnacknowledged w else w, removed))"

fun processAcks :: "sending_worker \<Rightarrow> u32 \<Rightarrow> bool \<Rightarrow> u32 list \<Rightarrow> sending_worker \<times> u32 \<times> bool" where
  "processAcks w maxack maxackRemoved [] = (w, maxack, maxackRemoved)"
| "processAcks w maxack maxackRemoved (number # ns) =
     (let (w', removed) = processAck w number
      in if maxack < number then processAcks w' number removed ns
         else processAcks w' maxack maxackRemoved ns)"

text \<open>The second component is the call \<open>roundTrip.Update(rtt, current)\<close>, if it is made.\<close>

definition SendingWorker_ProcessSegment ::
  "sending_worker \<Rightarrow> u32 \<Rightarrow> ack_segment \<Rightarrow> u32 \<Rightarrow> sending_worker \<times> (u32 \<times> u32) option" where
  "SendingWorker_ProcessSegment w current seg rto =
     (if w_closed w then (w, None)
      else
        let w = (if remoteNextNumber w < a_ReceivingWindow seg
                 then w\<lparr>remoteNextNumber := a_ReceivingWindow seg\<rparr> else w);
            w = ProcessReceivingNext w (a_ReceivingNext seg)
        in if ack_IsEmpty seg then (w, None)
           else
             let (w, maxack, maxackRemoved) = processAcks w 0 False (a_NumberList seg)
             in if maxackRemoved
                then (w\<lparr>window := HandleFastAck (window w) maxack rto\<rparr>,
                      if current - a_Timestamp seg < 10000
                      then Some (current - a_Timestamp seg, current) else None)
                else (w, None))"

definition SendingWorker_Push :: "sending_worker \<Rightarrow> bytes \<Rightarrow> sending_worker \<times> bool" where
  "SendingWorker_Push w b =
     (if w_closed w then (w, False)
      else if SendingWindow_Len (window w) > windowSize w then (w, False)
      else (w\<lparr>window := SendingWindow_Push (window w) (nextNumber w) b,
              nextNumber := nextNumber w + 1\<rparr>, True))"

definition SendingWorker_Write :: "send_env \<Rightarrow> sending_worker \<Rightarrow> data_segment \<Rightarrow> data_segment" where
  "SendingWorker_Write e w seg =
     seg\<lparr>d_Conv := e_Conversation e, d_SendingNext := firstUnacknowledged w,
         d_Option := (if e_ReadyToClose e then SegmentOptionClose else 0)\<rparr>"

definition OnPacketLoss :: "send_env \<Rightarrow> u32 \<Rightarrow> sending_worker \<Rightarrow> sending_worker" where
  "OnPacketLoss e lossRate w =
     (if \<not> e_Congestion e \<or> e_rto e = 0 then w
      else
        let c = controlWindow w;
            c = (if lossRate \<ge> 15 then 3 * c div 4
                 else if lossRate \<le> 5 then c + c div 4 else c);
            c = (if c < 16 then 16 else c);
            c = (if c > 2 * e_InFlight e then 2 * e_InFlight e else c)
        in w\<lparr>controlWindow := c\<rparr>)"

definition cwnd :: "send_env \<Rightarrow> sending_worker \<Rightarrow> u32" where
  "cwnd e w =
     (let c = e_InFlight e;
          c = (if c > remoteNextNumber w - firstUnacknowledged w
               then remoteNextNumber w - firstUnacknowledged w else c);
          c = (if e_Congestion e \<and> c > controlWindow w then controlWindow w else c)
      in c * 20)"

text \<open>The worker, the segments written to the output and whether a ping follows.\<close>

definition SendingWorker_Flush ::
  "send_env \<Rightarrow> sending_worker \<Rightarrow> u32 \<Rightarrow> sending_worker \<times> data_segment list \<times> bool" where
  "SendingWorker_Flush e w current =
     (if w_closed w then (w, [], False)
      else
        let (w, out) =
          (if \<not> SendingWindow_IsEmpty (window w)
           then let (sw, out, rate) =
                      SendingWindow_Flush (SendingWorker_Write e w) (window w) current (e_rto e) (cwnd e w);
                    w = (case rate of None \<Rightarrow> w | Some r \<Rightarrow> OnPacketLoss e r w)
                in (w\<lparr>window := sw, firstUnacknowledgedUpdated := False\<rparr>, out)
           else (w, []));
            updated = firstUnacknowledgedUpdated w
        in (w\<lparr>firstUnacknowledgedUpdated := False\<rparr>, out, updated))"

definition CloseWrite :: "sending_worker \<Rightarrow> sending_worker" where
  "CloseWrite w = w\<lparr>window := SendingWindow_Clear (window w) 0xFFFFFFFF\<rparr>"

definition SendingWorker_UpdateNecessary :: "sending_worker \<Rightarrow> bool" where
  "SendingWorker_UpdateNecessary w = (\<not> SendingWindow_IsEmpty (window w))"

section \<open>What each operation does to the numbers held\<close>

text \<open>The content of the window: numbers with their payloads, in list order.\<close>

definition held :: "data_segment list \<Rightarrow> (u32 \<times> bytes) list" where
  "held l = map (\<lambda>s. (d_Number s, d_payload s)) l"

lemma held_simps [simp]:
  "held [] = []" "held (s # l) = (d_Number s, d_payload s) # held l" "held (l @ l') = held l @ held l'"
  by (simp_all add: held_def)

lemma map_fst_held: "map fst (held l) = map d_Number l"
  by (simp add: held_def)

abbreviation sorted_window :: "data_segment list \<Rightarrow> bool" where
  "sorted_window l \<equiv> sorted_wrt (<) (map d_Number l)"

lemma Clear_loop_filter:
  "sorted_window l \<Longrightarrow> Clear_loop una l = filter (\<lambda>s. una \<le> d_Number s) l"
proof (induction una l rule: Clear_loop.induct)
  case (2 una seg l)
  have "filter (\<lambda>s. una \<le> d_Number s) l = l" if "una \<le> d_Number seg"
    using "2.prems" that by (intro filter_True) (auto intro: order_trans less_imp_le)
  with 2 show ?case by auto
qed simp

lemma Remove_loop_filter:
  "sorted_window l \<Longrightarrow>
     Remove_loop n l = (if n \<in> d_Number ` set l then Some (filter (\<lambda>s. d_Number s \<noteq> n) l) else None)"
proof (induction n l rule: Remove_loop.induct)
  case (2 n seg l)
  then have lt: "\<forall>s \<in> set l. d_Number seg < d_Number s" by auto
  show ?case
  proof (cases "d_Number seg = n")
    case True
    then have "filter (\<lambda>s. d_Number s \<noteq> n) l = l"
      using lt by (intro filter_True) auto
    with True show ?thesis by simp
  next
    case False
    moreover have "n \<notin> d_Number ` set l" if "n < d_Number seg"
      using lt that by (auto dest: less_trans)
    ultimately show ?thesis
      using 2 by auto
  qed
qed simp

lemma sorted_window_filter: "sorted_window l \<Longrightarrow> sorted_window (filter P l)"
  by (induction l) auto

lemma Visit_held:
  assumes "\<And>s seg. d_Number (fst (visitor s seg)) = d_Number seg \<and>
             d_payload (fst (visitor s seg)) = d_payload seg"
  shows "held (fst (Visit visitor s l)) = held l"
proof (induction l arbitrary: s)
  case (Cons seg l)
  obtain seg' s' b where v: "visitor s seg = (seg', s', b)"
    by (cases "visitor s seg")
  then have "d_Number seg' = d_Number seg \<and> d_payload seg' = d_payload seg"
    using assms [of s seg] by simp
  with v Cons [of s'] show ?case
    by (cases b) (auto split: prod.splits)
qed simp

lemma sorted_window_inj:
  assumes "sorted_window l" "x \<in> set l" "y \<in> set l" "d_Number x = d_Number y"
  shows "x = y"
proof -
  have "distinct (map d_Number l)"
    using assms(1) by (simp add: strict_sorted_iff)
  with assms(2-) show ?thesis
    by (auto simp: distinct_map dest: inj_onD)
qed

lemma sorted_window_held: "held l = held l' \<Longrightarrow> sorted_window l = sorted_window l'"
  by (metis map_fst_held)

lemma numbers_held: "held l = held l' \<Longrightarrow> d_Number ` set l = d_Number ` set l'"
  by (metis map_fst_held list.set_map)

lemma held_FastAck: "held (cache (HandleFastAck sw n rto)) = held (cache sw)"
  by (simp add: HandleFastAck_def, rule Visit_held) (simp add: FastAck_visitor_def)

subsection \<open>What a flush sends\<close>

definition due :: "u32 \<Rightarrow> data_segment \<Rightarrow> bool" where
  "due current seg \<longleftrightarrow> current - d_timeout seg < 0x7FFFFFFF"

definition sent ::
  "(data_segment \<Rightarrow> data_segment) \<Rightarrow> u32 \<Rightarrow> u32 \<Rightarrow> data_segment \<Rightarrow> data_segment" where
  "sent wr current rto seg =
     wr (seg\<lparr>d_timeout := current + rto, d_Timestamp := current, d_transmit := d_transmit seg + 1\<rparr>)"

lemma Flush_visitor_due:
  "due current seg \<Longrightarrow> \<exists>v'. Flush_visitor wr current rto mx v seg =
     (sent wr current rto seg, v', f_inFlight v + 1 < mx) \<and>
     f_out v' = f_out v @ [sent wr current rto seg] \<and> f_inFlight v' = f_inFlight v + 1"
  by (auto simp: Flush_visitor_def due_def sent_def Let_def not_le)

lemma Flush_visitor_skip:
  "\<not> due current seg \<Longrightarrow> Flush_visitor wr current rto mx v seg = (seg, v, True)"
  by (simp add: Flush_visitor_def due_def not_less)

lemma Visit_Flush_out:
  assumes "unat (f_inFlight v) + length l < 2 ^ 32"
  shows "f_out (snd (Visit (Flush_visitor wr current rto mx) v l)) =
     f_out v @ map (sent wr current rto)
       (take (max 1 (unat mx - unat (f_inFlight v))) (filter (due current) l))"
  using assms
proof (induction l arbitrary: v)
  case (Cons seg l)
  show ?case
  proof (cases "due current seg")
    case False
    with Cons show ?thesis by (simp add: Flush_visitor_skip split_beta)
  next
    case True
    obtain v' where v': "Flush_visitor wr current rto mx v seg =
        (sent wr current rto seg, v', f_inFlight v + 1 < mx)"
        "f_out v' = f_out v @ [sent wr current rto seg]" "f_inFlight v' = f_inFlight v + 1"
      using Flush_visitor_due [OF True] by blast
    have i: "unat (f_inFlight v + 1) = unat (f_inFlight v) + 1"
      using Cons.prems by (intro unat_Suc_no_wrap) simp
    show ?thesis
    proof (cases "f_inFlight v + 1 < mx")
      case more: True
      then have "unat (f_inFlight v) + 1 < unat mx"
        by (simp add: word_less_nat_alt i)
      then have "max 1 (unat mx - unat (f_inFlight v)) = Suc (max 1 (unat mx - unat (f_inFlight v + 1)))"
        by (simp add: i)
      with Cons.IH [of v'] Cons.prems True v' more i show ?thesis
        by (simp add: split_beta)
    next
      case stop: False
      then have "max 1 (unat mx - unat (f_inFlight v)) = 1"
        by (simp add: word_less_nat_alt i)
      with True v' stop show ?thesis by simp
    qed
  qed
qed simp

lemma Visit_Flush_held:
  assumes "\<And>s. d_Number (wr s) = d_Number s \<and> d_payload (wr s) = d_payload s"
  shows "held (fst (Visit (Flush_visitor wr current rto mx) v l)) = held l"
  by (rule Visit_held) (simp add: Flush_visitor_def Let_def assms)

lemma Visit_Flush_keeps:
  "s \<in> set l \<Longrightarrow> \<not> due current s \<Longrightarrow> s \<in> set (fst (Visit (Flush_visitor wr current rto mx) v l))"
proof (induction l arbitrary: v)
  case (Cons seg l)
  show ?case
  proof (cases "due current seg")
    case False
    with Cons show ?thesis by (auto simp: Flush_visitor_skip split_beta)
  next
    case True
    obtain v' where "Flush_visitor wr current rto mx v seg =
        (sent wr current rto seg, v', f_inFlight v + 1 < mx)"
      using Flush_visitor_due [OF True] by blast
    with Cons True show ?thesis by (cases "f_inFlight v + 1 < mx") (auto simp: split_beta)
  qed
qed simp

lemma SendingWindow_Flush_out:
  assumes "length (cache sw) < 2 ^ 32"
  shows "fst (snd (SendingWindow_Flush wr sw current rto mx)) =
     map (sent wr current rto) (take (max 1 (unat mx)) (filter (due current) (cache sw)))"
  using Visit_Flush_out [of _ "cache sw" wr current rto mx] assms
  by (simp add: SendingWindow_Flush_def SendingWindow_IsEmpty_def split_beta)

lemma SendingWindow_Flush_held:
  assumes "\<And>s. d_Number (wr s) = d_Number s \<and> d_payload (wr s) = d_payload s"
  shows "held (cache (fst (SendingWindow_Flush wr sw current rto mx))) = held (cache sw)"
  using Visit_Flush_held [OF assms]
  by (simp add: SendingWindow_Flush_def split_beta)

lemma Write_held:
  "d_Number (SendingWorker_Write e w s) = d_Number s \<and>
   d_payload (SendingWorker_Write e w s) = d_payload s"
  by (simp add: SendingWorker_Write_def)

section \<open>The worker's invariant\<close>

text \<open>
  The window holds strictly increasing numbers between the first unacknowledged one and the
  next one. The bound on the next number keeps the code's wrap-around comparisons exact.
\<close>

definition sender_inv :: "sending_worker \<Rightarrow> bool" where
  "sender_inv w \<longleftrightarrow>
     sorted_window (cache (window w)) \<and>
     (\<forall>s \<in> set (cache (window w)). firstUnacknowledged w \<le> d_Number s \<and> d_Number s < nextNumber w) \<and>
     firstUnacknowledged w \<le> nextNumber w \<and> unat (nextNumber w) \<le> 2 ^ 31"

lemma sender_inv_New [inv_intros]: "sender_inv (NewSendingWorker a b)"
  by (simp add: sender_inv_def NewSendingWorker_def NewSendingWindow_def)

lemma FindFirst_simps [simp]:
  "window (FindFirstUnacknowledged w) = window w"
  "nextNumber (FindFirstUnacknowledged w) = nextNumber w"
  "w_closed (FindFirstUnacknowledged w) = w_closed w"
  "remoteNextNumber (FindFirstUnacknowledged w) = remoteNextNumber w"
  "windowSize (FindFirstUnacknowledged w) = windowSize w"
  "controlWindow (FindFirstUnacknowledged w) = controlWindow w"
  by (simp_all add: FindFirstUnacknowledged_def Let_def)

lemma firstUnacknowledged_FindFirst:
  "firstUnacknowledged (FindFirstUnacknowledged w) =
     (if cache (window w) = [] then nextNumber w else d_Number (hd (cache (window w))))"
  by (simp add: FindFirstUnacknowledged_def Let_def SendingWindow_IsEmpty_def FirstNumber_def)

lemma sender_inv_FindFirst [inv_intros]: "sender_inv w \<Longrightarrow> sender_inv (FindFirstUnacknowledged w)"
  by (cases "cache (window w)")
    (auto simp: sender_inv_def firstUnacknowledged_FindFirst intro: less_imp_le)

lemma sender_inv_filter:
  assumes "sender_inv w" "cache sw = filter P (cache (window w))"
  shows "sender_inv (w\<lparr>window := sw\<rparr>)"
  using assms by (auto simp: sender_inv_def sorted_window_filter)

lemma ProcessReceivingNext_cache:
  "sender_inv w \<Longrightarrow> cache (window (ProcessReceivingNext w una)) =
     filter (\<lambda>s. una \<le> d_Number s) (cache (window w))"
  by (simp add: ProcessReceivingNext_def SendingWindow_Clear_def Clear_loop_filter sender_inv_def)

lemma sender_inv_ProcessReceivingNext [inv_intros]:
  "sender_inv w \<Longrightarrow> sender_inv (ProcessReceivingNext w una)"
  unfolding ProcessReceivingNext_def
  by (intro sender_inv_FindFirst sender_inv_filter [where P = "\<lambda>s. una \<le> d_Number s"])
    (simp_all add: SendingWindow_Clear_def Clear_loop_filter sender_inv_def)

lemma ProcessReceivingNext_frame [simp]:
  "nextNumber (ProcessReceivingNext w una) = nextNumber w"
  "w_closed (ProcessReceivingNext w una) = w_closed w"
  by (simp_all add: ProcessReceivingNext_def)

lemma in_window_not_rejected:
  assumes "sender_inv w" "s \<in> set (cache (window w))" "d_Number s = n"
  shows "\<not> (n - firstUnacknowledged w > 0x7FFFFFFF \<or> n - nextNumber w < 0x7FFFFFFF)"
proof -
  from assms have n: "firstUnacknowledged w \<le> n" "n < nextNumber w" "unat (nextNumber w) \<le> 2 ^ 31"
    by (auto simp: sender_inv_def)
  have "unat (n - firstUnacknowledged w) < 2 ^ 31"
    using n by (simp add: unat_diff_no_wrap word_less_nat_alt)
  moreover have "unat (n - nextNumber w) \<ge> 2 ^ 31"
    using n by (simp add: unat_diff_wrap)
  ultimately show ?thesis
    by (simp add: word_less_nat_alt)
qed

lemma processAck_cache:
  assumes "sender_inv w"
  shows "cache (window (fst (processAck w n))) = filter (\<lambda>s. d_Number s \<noteq> n) (cache (window w))"
    and "snd (processAck w n) \<longleftrightarrow> n \<in> d_Number ` set (cache (window w))"
    and "sender_inv (fst (processAck w n))"
proof -
  let ?c = "cache (window w)"
  have rm: "Remove_loop n ?c =
      (if n \<in> d_Number ` set ?c then Some (filter (\<lambda>s. d_Number s \<noteq> n) ?c) else None)"
    using assms by (intro Remove_loop_filter) (simp add: sender_inv_def)
  have id: "filter (\<lambda>s. d_Number s \<noteq> n) ?c = ?c" if "n \<notin> d_Number ` set ?c"
    using that by (intro filter_True) auto
  show "cache (window (fst (processAck w n))) = filter (\<lambda>s. d_Number s \<noteq> n) ?c"
    and "snd (processAck w n) \<longleftrightarrow> n \<in> d_Number ` set ?c"
    using in_window_not_rejected [OF assms, of _ n] rm id
    by (auto simp: processAck_def SendingWindow_Remove_def split_beta Let_def)
  show "sender_inv (fst (processAck w n))"
    using assms rm sender_inv_filter [OF assms, of _ "\<lambda>s. d_Number s \<noteq> n"]
    by (auto simp: processAck_def SendingWindow_Remove_def split_beta Let_def intro!: sender_inv_FindFirst)
qed

lemma processAck_frame [simp]:
  "nextNumber (fst (processAck w n)) = nextNumber w"
  "w_closed (fst (processAck w n)) = w_closed w"
  by (simp_all add: processAck_def Let_def split_beta)

lemma processAcks_cache:
  assumes "sender_inv w"
  shows "cache (window (fst (processAcks w m r ns))) =
           filter (\<lambda>s. d_Number s \<notin> set ns) (cache (window w)) \<and>
         sender_inv (fst (processAcks w m r ns)) \<and>
         nextNumber (fst (processAcks w m r ns)) = nextNumber w"
  using assms
proof (induction w m r ns rule: processAcks.induct)
  case (2 w m r n ns)
  obtain w' rm where p: "processAck w n = (w', rm)" by fastforce
  with processAck_cache [OF "2.prems", of n] processAck_frame [of w n]
  have "sender_inv w'" "nextNumber w' = nextNumber w"
      "cache (window w') = filter (\<lambda>s. d_Number s \<noteq> n) (cache (window w))"
    by simp_all
  with 2 p show ?case
    by (auto simp: conj_commute intro: filter_cong)
qed simp

lemma sender_inv_remoteNext:
  "sender_inv w \<Longrightarrow> sender_inv (if b then w\<lparr>remoteNextNumber := n\<rparr> else w)"
  by (simp add: sender_inv_def)

lemma ProcessSegment_cache:
  assumes "sender_inv w" "\<not> w_closed w"
  shows "held (cache (window (fst (SendingWorker_ProcessSegment w current seg rto)))) =
           held (filter (\<lambda>s. a_ReceivingNext seg \<le> d_Number s \<and> d_Number s \<notin> set (a_NumberList seg))
                   (cache (window w)))"
proof -
  define w1 where "w1 = (if remoteNextNumber w < a_ReceivingWindow seg
    then w\<lparr>remoteNextNumber := a_ReceivingWindow seg\<rparr> else w)"
  have w1: "sender_inv w1" "window w1 = window w"
    using assms(1) by (auto simp: w1_def sender_inv_def)
  define w2 where "w2 = ProcessReceivingNext w1 (a_ReceivingNext seg)"
  have w2: "sender_inv w2"
      "cache (window w2) = filter (\<lambda>s. a_ReceivingNext seg \<le> d_Number s) (cache (window w))"
    using w1 by (simp_all add: w2_def sender_inv_ProcessReceivingNext ProcessReceivingNext_cache)
  have "held (cache (window (fst (SendingWorker_ProcessSegment w current seg rto)))) =
      held (cache (window (fst (processAcks w2 0 False (a_NumberList seg)))))"
    using assms(2)
    by (simp add: SendingWorker_ProcessSegment_def Let_def split_beta held_FastAck ack_IsEmpty_def
        flip: w1_def w2_def)
  then show ?thesis
    using processAcks_cache [OF w2(1), of 0 False "a_NumberList seg"] w2(2)
    by (simp add: conj_commute)
qed

lemma sender_inv_held:
  assumes "sender_inv w" "held (cache (window w')) = held (cache (window w))"
    "nextNumber w' = nextNumber w" "firstUnacknowledged w' = firstUnacknowledged w"
  shows "sender_inv w'"
proof -
  have "sorted_window (cache (window w'))"
    using assms by (simp add: sender_inv_def sorted_window_held [OF assms(2)])
  moreover have "d_Number s \<in> d_Number ` set (cache (window w))" if "s \<in> set (cache (window w'))" for s
    using that numbers_held [OF assms(2)] by auto
  then have "\<forall>s \<in> set (cache (window w')). firstUnacknowledged w \<le> d_Number s \<and> d_Number s < nextNumber w"
    using assms(1) by (fastforce simp: sender_inv_def)
  ultimately show ?thesis
    using assms by (simp add: sender_inv_def)
qed

lemma sender_inv_ProcessSegment [inv_intros]:
  assumes "sender_inv w"
  shows "sender_inv (fst (SendingWorker_ProcessSegment w current seg rto))"
proof (cases "w_closed w")
  case True
  with assms show ?thesis by (simp add: SendingWorker_ProcessSegment_def)
next
  case False
  define w1 where "w1 = (if remoteNextNumber w < a_ReceivingWindow seg
    then w\<lparr>remoteNextNumber := a_ReceivingWindow seg\<rparr> else w)"
  define w2 where "w2 = ProcessReceivingNext w1 (a_ReceivingNext seg)"
  have w2: "sender_inv w2"
    unfolding w2_def w1_def by (intro sender_inv_ProcessReceivingNext sender_inv_remoteNext assms)
  let ?w3 = "fst (processAcks w2 0 False (a_NumberList seg))"
  have w3: "sender_inv ?w3"
    using processAcks_cache [OF w2] by blast
  then have "sender_inv (?w3\<lparr>window := HandleFastAck (window ?w3) m rto\<rparr>)" for m
    by (rule sender_inv_held) (simp_all add: held_FastAck)
  with w2 w3 False show ?thesis
    by (simp add: SendingWorker_ProcessSegment_def Let_def split_beta flip: w1_def w2_def)
qed

lemma sender_inv_Push [inv_intros]:
  assumes "sender_inv w" "unat (nextNumber w) < 2 ^ 31"
  shows "sender_inv (fst (SendingWorker_Push w b))"
proof -
  have n: "unat (nextNumber w + 1) = unat (nextNumber w) + 1"
    using assms(2) by (intro unat_Suc_no_wrap) simp
  then have lt: "nextNumber w < nextNumber w + 1"
    by (simp add: word_less_nat_alt)
  have "\<forall>s \<in> set (cache (window w)). firstUnacknowledged w \<le> d_Number s \<and> d_Number s < nextNumber w"
      "firstUnacknowledged w \<le> nextNumber w"
    using assms(1) by (auto simp: sender_inv_def)
  with lt have "\<forall>s \<in> set (cache (window w)). d_Number s < nextNumber w + 1"
    by (meson less_trans)
  with assms n lt show ?thesis
    by (auto simp: SendingWorker_Push_def sender_inv_def SendingWindow_Push_def sorted_wrt_append
        intro: order_trans less_imp_le)
qed

lemma OnPacketLoss_frame [simp]:
  "window (OnPacketLoss e r w) = window w" "nextNumber (OnPacketLoss e r w) = nextNumber w"
  "firstUnacknowledged (OnPacketLoss e r w) = firstUnacknowledged w"
  "w_closed (OnPacketLoss e r w) = w_closed w" "windowSize (OnPacketLoss e r w) = windowSize w"
  by (simp_all add: OnPacketLoss_def Let_def)

lemma Flush_frame [simp]:
  "nextNumber (fst (SendingWorker_Flush e w current)) = nextNumber w"
  "firstUnacknowledged (fst (SendingWorker_Flush e w current)) = firstUnacknowledged w"
  "w_closed (fst (SendingWorker_Flush e w current)) = w_closed w"
  "windowSize (fst (SendingWorker_Flush e w current)) = windowSize w"
  by (simp_all add: SendingWorker_Flush_def Let_def split_beta split: option.split)

lemma Flush_held:
  "held (cache (window (fst (SendingWorker_Flush e w current)))) = held (cache (window w))"
  using SendingWindow_Flush_held [OF Write_held]
  by (simp add: SendingWorker_Flush_def Let_def split_beta split: option.split)

lemma Flush_keeps:
  "s \<in> set (cache (window w)) \<Longrightarrow> \<not> due current s \<Longrightarrow>
     s \<in> set (cache (window (fst (SendingWorker_Flush e w current))))"
  using Visit_Flush_keeps [of s "cache (window w)" current]
  by (simp add: SendingWorker_Flush_def SendingWindow_Flush_def Let_def split_beta split: option.split)

lemma sender_inv_Flush [inv_intros]:
  "sender_inv w \<Longrightarrow> sender_inv (fst (SendingWorker_Flush e w current))"
  by (rule sender_inv_held) (simp_all add: Flush_held)

lemma Flush_segments:
  assumes "length (cache (window w)) < 2 ^ 32"
  shows "fst (snd (SendingWorker_Flush e w current)) =
     (if w_closed w then []
      else map (sent (SendingWorker_Write e w) current (e_rto e))
             (take (max 1 (unat (cwnd e w))) (filter (due current) (cache (window w)))))"
  using SendingWindow_Flush_out [OF assms]
  by (simp add: SendingWorker_Flush_def Let_def split_beta SendingWindow_IsEmpty_def)

lemma CloseWrite_cache:
  assumes "sender_inv w" shows "cache (window (CloseWrite w)) = []"
proof -
  have "\<forall>s \<in> set (cache (window w)). \<not> 0xFFFFFFFF \<le> d_Number s"
    using assms by (fastforce simp: sender_inv_def word_le_nat_alt word_less_nat_alt)
  then show ?thesis
    using assms by (simp add: CloseWrite_def SendingWindow_Clear_def Clear_loop_filter sender_inv_def)
qed

lemma sender_inv_CloseWrite [inv_intros]: "sender_inv w \<Longrightarrow> sender_inv (CloseWrite w)"
  using CloseWrite_cache [of w] by (simp add: sender_inv_def CloseWrite_def)

lemma sender_inv_Release [inv_intros]: "sender_inv w \<Longrightarrow> sender_inv (SendingWorker_Release w)"
  by (simp add: sender_inv_def SendingWorker_Release_def SendingWindow_Release_def)

subsection \<open>Any sequence of operations\<close>

datatype sender_op =
    SPush bytes
  | SAck u32 ack_segment u32
  | SReceivingNext u32
  | SFlush send_env u32
  | SCloseWrite
  | SRelease

fun sender_apply :: "sending_worker \<Rightarrow> sender_op \<Rightarrow> sending_worker" where
  "sender_apply w (SPush b) = fst (SendingWorker_Push w b)"
| "sender_apply w (SAck current seg rto) = fst (SendingWorker_ProcessSegment w current seg rto)"
| "sender_apply w (SReceivingNext n) = ProcessReceivingNext w n"
| "sender_apply w (SFlush e current) = fst (SendingWorker_Flush e w current)"
| "sender_apply w SCloseWrite = CloseWrite w"
| "sender_apply w SRelease = SendingWorker_Release w"

lemma processAcks_frame [simp]:
  "nextNumber (fst (processAcks w m r ns)) = nextNumber w"
  "windowSize (fst (processAcks w m r ns)) = windowSize w"
  by (induction w m r ns rule: processAcks.induct)
    (auto simp: split_beta processAck_def Let_def)

lemma ProcessSegment_frame [simp]:
  "nextNumber (fst (SendingWorker_ProcessSegment w current seg rto)) = nextNumber w"
  "windowSize (fst (SendingWorker_ProcessSegment w current seg rto)) = windowSize w"
  by (simp_all add: SendingWorker_ProcessSegment_def Let_def split_beta ProcessReceivingNext_def)

lemma sender_apply_nextNumber:
  "unat (nextNumber w) < 2 ^ 31 \<Longrightarrow>
     unat (nextNumber (sender_apply w op)) \<le>
       unat (nextNumber w) + (case op of SPush _ \<Rightarrow> 1 | _ \<Rightarrow> 0)"
  by (cases op) (auto simp: CloseWrite_def SendingWorker_Release_def
      SendingWorker_Push_def unat_Suc_no_wrap)

lemma sender_apply_windowSize [simp]: "windowSize (sender_apply w op) = windowSize w"
  by (cases op) (auto simp: CloseWrite_def SendingWorker_Release_def SendingWorker_Push_def
      ProcessReceivingNext_def)

lemma sender_inv_apply:
  assumes "sender_inv w" "unat (nextNumber w) < 2 ^ 31"
  shows "sender_inv (sender_apply w op)"
  using assms by (cases op) (auto intro: inv_intros)

lemma length_cache_bound:
  assumes "sender_inv w"
  shows "length (cache (window w)) \<le> unat (nextNumber w)"
proof -
  let ?ns = "map (unat \<circ> d_Number) (cache (window w))"
  have "sorted_wrt (<) ?ns"
    using assms by (simp add: sender_inv_def sorted_wrt_map word_less_nat_alt)
  then have "distinct ?ns"
    by (simp add: strict_sorted_iff)
  moreover have "set ?ns \<subseteq> {..<unat (nextNumber w)}"
    using assms by (auto simp: sender_inv_def word_less_nat_alt)
  ultimately have "length ?ns \<le> card {..<unat (nextNumber w)}"
    by (metis card_mono distinct_card finite_lessThan)
  then show ?thesis by simp
qed

lemma sender_apply_length:
  assumes "sender_inv w" "unat (nextNumber w) < 2 ^ 31"
    "length (cache (window w)) \<le> unat (windowSize w) + 1"
  shows "length (cache (window (sender_apply w op))) \<le> unat (windowSize w) + 1"
proof (cases op)
  case (SPush b)
  have "length (cache (window w)) < 2 ^ 32"
    using length_cache_bound [OF assms(1)] assms(2) by simp
  then have "length (cache (window w)) \<le> unat (windowSize w)"
    if "\<not> SendingWindow_Len (window w) > windowSize w"
    using that by (simp add: SendingWindow_Len_def word_less_nat_alt unat_of_nat_id)
  with SPush assms(3) show ?thesis
    by (auto simp: SendingWorker_Push_def SendingWindow_Push_def)
next
  case (SAck current seg rto)
  have "length (held (cache (window (sender_apply w op)))) \<le> length (held (cache (window w)))"
    using SAck ProcessSegment_cache [OF assms(1), of current seg rto]
    by (cases "w_closed w") (auto simp: held_def SendingWorker_ProcessSegment_def)
  with assms(3) show ?thesis by (simp add: held_def)
next
  case (SReceivingNext n)
  with assms ProcessReceivingNext_cache [OF assms(1), of n] show ?thesis
    by (simp add: le_trans [OF length_filter_le])
next
  case (SFlush e current)
  have "length (held (cache (window (sender_apply w op)))) = length (held (cache (window w)))"
    using SFlush Flush_held by simp
  with assms(3) show ?thesis by (simp add: held_def)
qed (use assms CloseWrite_cache in \<open>auto simp: SendingWorker_Release_def SendingWindow_Release_def\<close>)

definition pushes :: "sender_op list \<Rightarrow> nat" where
  "pushes ops = length (filter (\<lambda>op. case op of SPush _ \<Rightarrow> True | _ \<Rightarrow> False) ops)"

lemma sender_run_inv:
  assumes "sender_inv w" "length (cache (window w)) \<le> unat (windowSize w) + 1"
    "unat (nextNumber w) + pushes ops < 2 ^ 31"
  shows "sender_inv (foldl sender_apply w ops) \<and>
     length (cache (window (foldl sender_apply w ops))) \<le> unat (windowSize w) + 1"
  using assms
proof (induction ops arbitrary: w)
  case (Cons op ops)
  have n: "unat (nextNumber w) < 2 ^ 31"
    using Cons.prems(3) by simp
  have "unat (nextNumber (sender_apply w op)) + pushes ops < 2 ^ 31"
    using sender_apply_nextNumber [OF n, of op] Cons.prems(3)
    by (cases op) (auto simp: pushes_def)
  with Cons.IH [of "sender_apply w op"] sender_inv_apply [OF Cons.prems(1) n, of op]
    sender_apply_length [OF Cons.prems(1) n Cons.prems(2), of op]
  show ?case by simp
qed simp

section \<open>Properties\<close>

text \<open>C5: whatever sequence of pushes, acknowledgements, flushes and closes a new sending worker
  goes through (with fewer than \<open>2 ^ 31\<close> pushes), its window holds strictly increasing numbers
  between the first unacknowledged and the next number, and at most \<open>windowSize + 1\<close> of them.\<close>

theorem sending_worker_invariant:
  assumes "pushes ops < 2 ^ 31"
  shows "sender_inv (foldl sender_apply (NewSendingWorker inFlight bufferSize) ops) \<and>
     length (cache (window (foldl sender_apply (NewSendingWorker inFlight bufferSize) ops)))
       \<le> unat bufferSize + 1"
  using sender_run_inv [OF sender_inv_New, of inFlight bufferSize ops] assms
  by (simp add: NewSendingWorker_def NewSendingWindow_def)

theorem sending_worker_invariant_witness:
  "sender_inv (foldl sender_apply (NewSendingWorker 8 4) [SPush [1], SPush [2], SReceivingNext 1, SCloseWrite])"
  using sending_worker_invariant [of "[SPush [1], SPush [2], SReceivingNext 1, SCloseWrite]" 8 4]
  by (simp add: pushes_def)

text \<open>C14: an acknowledgement removes from the window exactly the segments below its
  \<open>ReceivingNext\<close> and those in its number list, and keeps the payload of every other.\<close>

theorem ack_removes_exactly:
  assumes "sender_inv w" "\<not> w_closed w"
  shows "held (cache (window (fst (SendingWorker_ProcessSegment w current seg rto)))) =
           filter (\<lambda>(n, p). a_ReceivingNext seg \<le> n \<and> n \<notin> set (a_NumberList seg))
             (held (cache (window w)))"
  using ProcessSegment_cache [OF assms] by (simp add: held_def filter_map comp_def)

theorem ack_removes_exactly_witness:
  "held (cache (window (fst (SendingWorker_ProcessSegment
       (foldl sender_apply (NewSendingWorker 8 4) [SPush [1], SPush [2], SPush [3]]) 50
       ((NewAckSegment 128)\<lparr>a_ReceivingNext := 1, a_NumberList := [2]\<rparr>) 100)))) = [(1, [2])]"
proof -
  have inv: "sender_inv (foldl sender_apply (NewSendingWorker 8 4) [SPush [1], SPush [2], SPush [3]])"
    using sender_run_inv [OF sender_inv_New, of 8 4 "[SPush [1], SPush [2], SPush [3]]"]
    by (simp add: pushes_def NewSendingWorker_def NewSendingWindow_def)
  show ?thesis
    using ack_removes_exactly [OF inv]
    by (simp add: NewSendingWorker_def NewSendingWindow_def SendingWorker_Push_def
        SendingWindow_Push_def SendingWindow_Len_def NewAckSegment_def ackNumberLimit_def NewDataSegment_def)
qed

text \<open>C13: a flush transmits exactly the first segments of the window that are due, in order and as
  many as the congestion window allows (one at least), each stamped with the current time, the
  first unacknowledged number and the conversation, and keeps every segment in the window.\<close>

theorem flush_sends_due:
  assumes "sender_inv w" "\<not> w_closed w"
  shows "fst (snd (SendingWorker_Flush e w current)) =
       map (sent (SendingWorker_Write e w) current (e_rto e))
         (take (max 1 (unat (cwnd e w))) (filter (due current) (cache (window w)))) \<and>
     held (cache (window (fst (SendingWorker_Flush e w current)))) = held (cache (window w))"
proof -
  have "length (cache (window w)) < 2 ^ 32"
    using length_cache_bound [OF assms(1)] assms(1) by (simp add: sender_inv_def)
  then show ?thesis
    using assms(2) by (simp add: Flush_segments Flush_held)
qed

theorem flush_sends_due_witness:
  "map d_Number (fst (snd (SendingWorker_Flush \<lparr>e_Conversation = 9, e_ReadyToClose = False, e_rto = 100,
       e_Congestion = False, e_InFlight = 8\<rparr>
       (foldl sender_apply (NewSendingWorker 8 4) [SPush [1], SPush [2]]) 50))) = [0, 1]"
proof -
  have inv: "sender_inv (foldl sender_apply (NewSendingWorker 8 4) [SPush [1], SPush [2]])"
    using sender_run_inv [OF sender_inv_New, of 8 4 "[SPush [1], SPush [2]]"]
    by (simp add: pushes_def NewSendingWorker_def NewSendingWindow_def)
  show ?thesis
    using flush_sends_due [OF inv]
    by (simp add: NewSendingWorker_def NewSendingWindow_def SendingWorker_Push_def cwnd_def due_def
        SendingWindow_Push_def SendingWindow_Len_def NewDataSegment_def sent_def SendingWorker_Write_def)
qed

text \<open>C31: once the connection is \<open>2 ^ 31 - 1\<close> milliseconds old (24.8 days), and until the clock
  wraps, a segment that was never transmitted is never due: its zero \<open>timeout\<close> counts as lying
  in the future. Whatever else is in the window, no flush sends it, and it stays as it is.\<close>

theorem fresh_segments_stall:
  assumes "0x7FFFFFFF \<le> current" "sender_inv w" "s \<in> set (cache (window w))" "d_timeout s = 0"
  shows "d_Number s \<notin> d_Number ` set (fst (snd (SendingWorker_Flush e w current))) \<and>
    s \<in> set (cache (window (fst (SendingWorker_Flush e w current))))"
proof -
  have not_due: "\<not> due current s"
    using assms(1,4) by (simp add: due_def not_less)
  have "length (cache (window w)) < 2 ^ 32"
    using length_cache_bound [OF assms(2)] assms(2) by (simp add: sender_inv_def)
  note out = Flush_segments [OF this, of e current]
  have other: "d_Number s \<noteq> d_Number y" if "y \<in> set (cache (window w))" "due current y" for y
  proof
    assume "d_Number s = d_Number y"
    moreover have "sorted_window (cache (window w))"
      using assms(2) by (simp add: sender_inv_def)
    ultimately have "y = s"
      using sorted_window_inj that(1) assms(3) by blast
    with that(2) not_due show False by simp
  qed
  have "d_Number s \<notin> d_Number ` set (fst (snd (SendingWorker_Flush e w current)))"
    unfolding out by (auto simp: sent_def SendingWorker_Write_def dest!: in_set_takeD dest: other)
  with Flush_keeps [OF assms(3) not_due] show ?thesis by simp
qed

text \<open>A window with a segment that was transmitted at time 50 and a fresh one: only the first is sent.\<close>

definition mixed_env :: send_env where
  "mixed_env = \<lparr>e_Conversation = 9, e_ReadyToClose = False, e_rto = 100, e_Congestion = False, e_InFlight = 8\<rparr>"

definition mixed_worker :: sending_worker where
  "mixed_worker = foldl sender_apply (NewSendingWorker 8 4) [SPush [1], SFlush mixed_env 50, SPush [2]]"

lemma mixed_worker_simps:
  "cache (window mixed_worker) =
     [NewDataSegment\<lparr>d_Number := 0, d_payload := [1], d_timeout := 150, d_Timestamp := 50, d_transmit := 1,
        d_Conv := 9\<rparr>, NewDataSegment\<lparr>d_Number := 1, d_payload := [2]\<rparr>]"
  "\<not> w_closed mixed_worker"
  by (simp_all add: mixed_worker_def mixed_env_def NewSendingWorker_def NewSendingWindow_def
      SendingWorker_Push_def SendingWindow_Push_def SendingWindow_Len_def NewDataSegment_def
      SendingWorker_Flush_def SendingWindow_Flush_def SendingWindow_IsEmpty_def Flush_visitor_def
      SendingWorker_Write_def Let_def OnPacketLoss_def cwnd_def)

theorem fresh_segments_stall_witness:
  "map d_Number (fst (snd (SendingWorker_Flush mixed_env mixed_worker 0x80000000))) = [0] \<and>
   1 \<notin> d_Number ` set (fst (snd (SendingWorker_Flush mixed_env mixed_worker 0x80000000)))"
proof -
  have inv: "sender_inv mixed_worker"
    using sender_run_inv [OF sender_inv_New, of 8 4 "[SPush [1], SFlush mixed_env 50, SPush [2]]"]
    by (simp add: mixed_worker_def pushes_def NewSendingWorker_def NewSendingWindow_def)
  have "map d_Number (fst (snd (SendingWorker_Flush mixed_env mixed_worker 0x80000000))) = [0]"
    using Flush_segments [where w = mixed_worker and e = mixed_env and current = "0x80000000"]
    by (simp add: mixed_worker_simps due_def sent_def SendingWorker_Write_def NewDataSegment_def take_Cons')
  then show ?thesis
    using fresh_segments_stall [OF _ inv, where s = "NewDataSegment\<lparr>d_Number := 1, d_payload := [2]\<rparr>"
        and e = mixed_env and current = "0x80000000"]
    by (simp add: mixed_worker_simps NewDataSegment_def)
qed

text \<open>After every loss report the congestion window lies between 16 segments and twice the
  configured in-flight size, whatever it was and whatever the loss.\<close>

lemma control_window_bounds:
  assumes "e_Congestion e" "e_rto e \<noteq> 0" "8 \<le> e_InFlight e" "e_InFlight e < 2 ^ 31"
  shows "16 \<le> controlWindow (OnPacketLoss e r w) \<and>
     controlWindow (OnPacketLoss e r w) \<le> 2 * e_InFlight e"
proof -
  have two: "16 \<le> 2 * e_InFlight e"
    using assms(3,4) by (simp add: word_le_nat_alt word_less_nat_alt unat_word_ariths)
  have clamp: "16 \<le> (if (if c < 16 then 16 else c) > m then m else if c < 16 then 16 else c) \<and>
      (if (if c < 16 then 16 else c) > m then m else if c < 16 then 16 else c) \<le> m"
    if "16 \<le> m" for c m :: u32
    using that by auto
  show ?thesis
    using assms(1,2) clamp [OF two]
    by (simp only: OnPacketLoss_def Let_def) simp
qed

lemma control_window_bounds_witness:
  "controlWindow (OnPacketLoss \<lparr>e_Conversation = 9, e_ReadyToClose = False, e_rto = 100,
       e_Congestion = True, e_InFlight = 8\<rparr> 50 (NewSendingWorker 8 4)) \<le> 16"
  using control_window_bounds [of "\<lparr>e_Conversation = 9, e_ReadyToClose = False, e_rto = 100,
       e_Congestion = True, e_InFlight = 8\<rparr>" 50 "NewSendingWorker 8 4"] by simp

end
