(* ===== verification/Kcp_Receiving.thy ===== *)
theory Kcp_Receiving
  imports Kcp_Segment "HOL-Library.Signed_Division"
begin

text \<open>
  \<open>transport/internet/kcp/receiving.go\<close>: the receiving window (a Go map from numbers to
  segments), the list of acknowledgements still to be sent and the receiving worker. The
  worker's \<open>leftOver\<close> is a \<open>MultiBuffer\<close> seen through its contents (\<open>Buf.SplitBytes_refines\<close>);
  \<open>None\<close> is \<open>nil\<close>. Segments handed to the output are returned in the order of the writes.
\<close>

section \<open>The receiving window\<close>

type_synonym receiving_window = "u32 \<rightharpoonup> data_segment"

definition ReceivingWindow_Set :: "receiving_window \<Rightarrow> u32 \<Rightarrow> data_segment \<Rightarrow> receiving_window \<times> bool" where
  "ReceivingWindow_Set w n value = (if w n \<noteq> None then (w, False) else (w(n \<mapsto> value), True))"

definition ReceivingWindow_Has :: "receiving_window \<Rightarrow> u32 \<Rightarrow> bool" where
  "ReceivingWindow_Has w n = (w n \<noteq> None)"

definition ReceivingWindow_Remove :: "receiving_window \<Rightarrow> u32 \<Rightarrow> receiving_window \<times> data_segment option" where
  "ReceivingWindow_Remove w n = (case w n of None \<Rightarrow> (w, None) | Some v \<Rightarrow> (w(n := None), Some v))"

section \<open>The acknowledgement list\<close>

record ack_list =
  l_timestamps :: "u32 list"
  l_numbers :: "u32 list"
  l_nextFlush :: "u32 list"
  l_flushCandidates :: "u32 list"
  l_dirty :: bool
  l_mss :: u32

definition NewAckList :: "u32 \<Rightarrow> ack_list" where
  "NewAckList mss = \<lparr>l_timestamps = [], l_numbers = [], l_nextFlush = [], l_flushCandidates = [],
     l_dirty = False, l_mss = mss\<rparr>"

definition AckList_Add :: "ack_list \<Rightarrow> u32 \<Rightarrow> u32 \<Rightarrow> ack_list" where
  "AckList_Add l number timestamp =
     l\<lparr>l_timestamps := l_timestamps l @ [timestamp], l_numbers := l_numbers l @ [number],
       l_nextFlush := l_nextFlush l @ [0], l_dirty := True\<rparr>"

text \<open>
  The in-place compaction: \<open>k\<close> entries from index \<open>i\<close> on are still to be looked at, \<open>count\<close>
  have been kept.
\<close>

fun AckList_Clear_loop :: "u32 \<Rightarrow> nat \<Rightarrow> nat \<Rightarrow> nat \<Rightarrow> ack_list \<Rightarrow> nat \<times> ack_list" where
  "AckList_Clear_loop una 0 i count l = (count, l)"
| "AckList_Clear_loop una (Suc k) i count l =
     (if l_numbers l ! i < una then AckList_Clear_loop una k (Suc i) count l
      else let l = (if i \<noteq> count
                    then l\<lparr>l_numbers := (l_numbers l)[count := l_numbers l ! i],
                           l_timestamps := (l_timestamps l)[count := l_timestamps l ! i],
                           l_nextFlush := (l_nextFlush l)[count := l_nextFlush l ! i]\<rparr>
                    else l)
           in AckList_Clear_loop una k (Suc i) (Suc count) l)"

definition AckList_Clear :: "ack_list \<Rightarrow> u32 \<Rightarrow> ack_list" where
  "AckList_Clear l una =
     (let (count, l) = AckList_Clear_loop una (length (l_numbers l)) 0 0 l
      in if count < length (l_numbers l)
         then l\<lparr>l_numbers := take count (l_numbers l), l_timestamps := take count (l_timestamps l),
                l_nextFlush := take count (l_nextFlush l), l_dirty := True\<rparr>
         else l)"

definition ack_limit :: "u32 \<Rightarrow> int" where
  "ack_limit mss = (int (unat mss) - 17) sdiv 4"

definition flush_timeout :: "u32 \<Rightarrow> u32" where
  "flush_timeout rto = (let t = rto div 2 in if t < 20 then 20 else t)"

record ack_flush =
  g_candidates :: "u32 list"
  g_dirty :: bool
  g_seg :: ack_segment
  g_out :: "ack_segment list"

text \<open>
  The loop over the three parallel arrays; it returns the new \<open>nextFlush\<close> array. \<open>wr\<close> is
  \<open>l.writer.Write\<close>. \<open>flushCandidates\<close> was made with capacity 128 and is never grown past it.
\<close>

fun AckList_Flush_loop ::
  "(ack_segment \<Rightarrow> ack_segment) \<Rightarrow> u32 \<Rightarrow> u32 \<Rightarrow> u32 \<Rightarrow> u32 list \<Rightarrow> u32 list \<Rightarrow> u32 list \<Rightarrow>
     ack_flush \<Rightarrow> u32 list \<times> ack_flush" where
  "AckList_Flush_loop wr mss current rto (n # ns) (t # ts) (nf # nfs) g =
     (if nf > current
      then let g = (if length (g_candidates g) < 128
                    then g\<lparr>g_candidates := g_candidates g @ [n]\<rparr> else g);
               (nfs', g') = AckList_Flush_loop wr mss current rto ns ts nfs g
           in (nf # nfs', g')
      else let seg = PutTimestamp (PutNumber (g_seg g) n) t;
               g = (if ack_IsFull seg
                    then g\<lparr>g_out := g_out g @ [wr seg], g_seg := NewAckSegment (ack_limit mss),
                           g_dirty := False\<rparr>
                    else g\<lparr>g_seg := seg\<rparr>);
               (nfs', g') = AckList_Flush_loop wr mss current rto ns ts nfs g
           in ((current + flush_timeout rto) # nfs', g'))"
| "AckList_Flush_loop wr mss current rto _ _ nfs g = (nfs, g)"

fun PutCandidates :: "ack_segment \<Rightarrow> u32 list \<Rightarrow> ack_segment" where
  "PutCandidates seg [] = seg"
| "PutCandidates seg (n # ns) = (if ack_IsFull seg then seg else PutCandidates (PutNumber seg n) ns)"

definition AckList_Flush ::
  "(ack_segment \<Rightarrow> ack_segment) \<Rightarrow> ack_list \<Rightarrow> u32 \<Rightarrow> u32 \<Rightarrow> ack_list \<times> ack_segment list" where
  "AckList_Flush wr l current rto =
     (let (nfs, g) = AckList_Flush_loop wr (l_mss l) current rto
                       (l_numbers l) (l_timestamps l) (l_nextFlush l)
                       \<lparr>g_candidates = [], g_dirty = l_dirty l,
                        g_seg = NewAckSegment (ack_limit (l_mss l)), g_out = []\<rparr>;
          l = l\<lparr>l_nextFlush := nfs, l_flushCandidates := g_candidates g, l_dirty := g_dirty g\<rparr>
      in if g_dirty g \<or> \<not> ack_IsEmpty (g_seg g)
         then (l\<lparr>l_dirty := False\<rparr>, g_out g @ [wr (PutCandidates (g_seg g) (g_candidates g))])
         else (l, g_out g))"

section \<open>The receiving worker\<close>

record receiving_worker =
  r_leftOver :: "bytes list option"
  r_window :: receiving_window
  r_acklist :: ack_list
  r_nextNumber :: u32
  r_windowSize :: u32

definition NewReceivingWorker :: "u32 \<Rightarrow> u32 \<Rightarrow> receiving_worker" where
  \<comment> \<open>the arguments are the connection's mss and the configured in-flight size\<close>
  "NewReceivingWorker mss inFlight =
     \<lparr>r_leftOver = None, r_window = Map.empty, r_acklist = NewAckList (mss + DataSegmentOverhead),
      r_nextNumber = 0, r_windowSize = inFlight\<rparr>"

definition ReceivingWorker_Release :: "receiving_worker \<Rightarrow> receiving_worker" where
  "ReceivingWorker_Release w = w\<lparr>r_leftOver := None\<rparr>"

definition ProcessSendingNext :: "receiving_worker \<Rightarrow> u32 \<Rightarrow> receiving_worker" where
  "ProcessSendingNext w number = w\<lparr>r_acklist := AckList_Clear (r_acklist w) number\<rparr>"

definition ReceivingWorker_ProcessSegment :: "receiving_worker \<Rightarrow> data_segment \<Rightarrow> receiving_worker" where
  "ReceivingWorker_ProcessSegment w seg =
     (let number = d_Number seg; idx = number - r_nextNumber w
      in if idx \<ge> r_windowSize w then w
         else w\<lparr>r_acklist := AckList_Add (AckList_Clear (r_acklist w) (d_SendingNext seg))
                              number (d_Timestamp seg),
                r_window := fst (ReceivingWindow_Set (r_window w) (d_Number seg) seg)\<rparr>)"

text \<open>The loop of \<open>ReadMultiBuffer\<close>: it ends, as every round removes an entry of the window.\<close>

function Read_loop :: "receiving_window \<Rightarrow> u32 \<Rightarrow> bytes list \<Rightarrow> receiving_window \<times> u32 \<times> bytes list" where
  "Read_loop win nxt mb =
     (case win nxt of
        None \<Rightarrow> (win, nxt, mb)
      | Some seg \<Rightarrow> Read_loop (win(nxt := None)) (nxt + 1) (mb @ [d_payload seg]))"
  by pat_completeness auto
termination
proof (relation "measure (\<lambda>(win, nxt, mb). card (dom win))")
  fix win :: receiving_window and nxt :: u32 and mb :: "bytes list" and seg
  assume "win nxt = Some seg"
  then have "card (dom win - {nxt}) < card (dom win)"
    by (intro card_Diff1_less) auto
  then show "((win(nxt := None), nxt + 1, mb @ [d_payload seg]), win, nxt, mb)
      \<in> measure (\<lambda>(win :: receiving_window, nxt :: u32, mb :: bytes list). card (dom win))"
    by simp
qed simp

declare Read_loop.simps [simp del]

definition ReceivingWorker_ReadMultiBuffer :: "receiving_worker \<Rightarrow> receiving_worker \<times> bytes list" where
  "ReceivingWorker_ReadMultiBuffer w =
     (case r_leftOver w of
        Some mb \<Rightarrow> (w\<lparr>r_leftOver := None\<rparr>, mb)
      | None \<Rightarrow>
          let (win, nxt, mb) = Read_loop (r_window w) (r_nextNumber w) []
          in (w\<lparr>r_window := win, r_nextNumber := nxt\<rparr>, mb))"

text \<open>\<open>Read\<close> into a slice of \<open>n\<close> bytes.\<close>

definition ReceivingWorker_Read :: "receiving_worker \<Rightarrow> nat \<Rightarrow> receiving_worker \<times> bytes" where
  "ReceivingWorker_Read w n =
     (let (w, mb) = ReceivingWorker_ReadMultiBuffer w
      in if concat mb = [] then (w, [])
         else let (rest, d) = split_contents mb n
              in (if concat rest \<noteq> [] then w\<lparr>r_leftOver := Some rest\<rparr> else w, d))"

definition IsDataAvailable :: "receiving_worker \<Rightarrow> bool" where
  "IsDataAvailable w = ReceivingWindow_Has (r_window w) (r_nextNumber w)"

definition ReceivingWorker_Write :: "u16 \<Rightarrow> bool \<Rightarrow> receiving_worker \<Rightarrow> ack_segment \<Rightarrow> ack_segment" where
  "ReceivingWorker_Write conv readyToClose w seg =
     seg\<lparr>a_Conv := conv, a_ReceivingNext := r_nextNumber w,
         a_ReceivingWindow := r_nextNumber w + r_windowSize w,
         a_Option := (if readyToClose then SegmentOptionClose else 0)\<rparr>"

definition ReceivingWorker_Flush ::
  "u16 \<Rightarrow> bool \<Rightarrow> u32 \<Rightarrow> receiving_worker \<Rightarrow> u32 \<Rightarrow> receiving_worker \<times> ack_segment list" where
  \<comment> \<open>the first three arguments are the connection's conversation, whether it is closing, its timeout\<close>
  "ReceivingWorker_Flush conv readyToClose rto w current =
     (let (l, out) = AckList_Flush (ReceivingWorker_Write conv readyToClose w) (r_acklist w) current rto
      in (w\<lparr>r_acklist := l\<rparr>, out))"

definition ReceivingWorker_UpdateNecessary :: "receiving_worker \<Rightarrow> bool" where
  "ReceivingWorker_UpdateNecessary w = (l_numbers (r_acklist w) \<noteq> [])"

section \<open>The acknowledgement list: lemmas\<close>

definition parallel :: "ack_list \<Rightarrow> bool" where
  "parallel l \<longleftrightarrow> length (l_timestamps l) = length (l_numbers l) \<and>
                length (l_nextFlush l) = length (l_numbers l)"

definition entries :: "ack_list \<Rightarrow> (u32 \<times> u32 \<times> u32) list" where
  "entries l = zip (l_numbers l) (zip (l_timestamps l) (l_nextFlush l))"

lemma length_entries [simp]: "parallel l \<Longrightarrow> length (entries l) = length (l_numbers l)"
  by (simp add: parallel_def entries_def)

lemma entries_nth:
  "parallel l \<Longrightarrow> i < length (l_numbers l) \<Longrightarrow>
     entries l ! i = (l_numbers l ! i, l_timestamps l ! i, l_nextFlush l ! i)"
  by (simp add: parallel_def entries_def)

lemma entries_fst: "parallel l \<Longrightarrow> map fst (entries l) = l_numbers l"
  by (simp add: parallel_def entries_def)

lemma entries_take:
  "entries (l\<lparr>l_numbers := take c (l_numbers l), l_timestamps := take c (l_timestamps l),
     l_nextFlush := take c (l_nextFlush l), l_dirty := b\<rparr>) = take c (entries l)"
  by (simp add: entries_def take_zip)

lemma AckList_Clear_loop_spec:
  assumes "parallel l" "i + k = length (l_numbers l)" "count \<le> i"
    "AckList_Clear_loop una k i count l = (c, l')"
  shows "parallel l' \<and> length (l_numbers l') = length (l_numbers l) \<and> c \<le> length (l_numbers l) \<and>
     take c (entries l') =
       take count (entries l) @ filter (\<lambda>(n, _). una \<le> n) (drop i (entries l)) \<and>
     l_mss l' = l_mss l"
  using assms
proof (induction una k i count l rule: AckList_Clear_loop.induct)
  case (1 una i count l)
  then show ?case by auto
next
  case (2 una k i count l)
  from "2.prems"(2) have i: "i < length (l_numbers l)" by simp
  have dr: "drop i (entries l) = (l_numbers l ! i, l_timestamps l ! i, l_nextFlush l ! i) # drop (Suc i) (entries l)"
    using i "2.prems"(1) by (metis Cons_nth_drop_Suc entries_nth length_entries)
  show ?case
  proof (cases "l_numbers l ! i < una")
    case True
    with 2 dr show ?thesis by (auto simp: not_le)
  next
    case False
    define m where "m = (if i \<noteq> count
      then l\<lparr>l_numbers := (l_numbers l)[count := l_numbers l ! i],
             l_timestamps := (l_timestamps l)[count := l_timestamps l ! i],
             l_nextFlush := (l_nextFlush l)[count := l_nextFlush l ! i]\<rparr> else l)"
    have em: "entries m = (entries l)[count := entries l ! i]"
      using "2.prems"(1) i by (auto simp: m_def entries_def update_zip parallel_def)
    have m: "parallel m" "length (l_numbers m) = length (l_numbers l)" "l_mss m = l_mss l"
      using "2.prems"(1) by (auto simp: m_def parallel_def)
    have t: "take (Suc count) (entries m) = take count (entries l) @ [entries l ! i]"
      using "2.prems"(1,3) i em by (simp add: take_Suc_conv_app_nth)
    have d: "drop (Suc i) (entries m) = drop (Suc i) (entries l)"
      using "2.prems"(3) em by simp
    have call: "AckList_Clear_loop una k (Suc i) (Suc count) m = (c, l')"
      using "2.prems"(4) False by (simp add: m_def)
    have "parallel l' \<and> length (l_numbers l') = length (l_numbers m) \<and> c \<le> length (l_numbers m) \<and>
      take c (entries l') = take (Suc count) (entries m) @
        filter (\<lambda>(n, _). una \<le> n) (drop (Suc i) (entries m)) \<and> l_mss l' = l_mss m"
      using "2.prems"(2,3) m by (intro "2.IH"(2) [OF False m_def] call) simp_all
    then show ?thesis
      using m dr False t d i "2.prems"(1) by (simp add: entries_nth not_less)
  qed
qed

lemma AckList_Clear_spec:
  assumes "parallel l"
  shows "parallel (AckList_Clear l una) \<and>
     entries (AckList_Clear l una) = filter (\<lambda>(n, _). una \<le> n) (entries l) \<and>
     l_mss (AckList_Clear l una) = l_mss l"
proof -
  obtain c l' where r: "AckList_Clear_loop una (length (l_numbers l)) 0 0 l = (c, l')"
    by fastforce
  from AckList_Clear_loop_spec [OF assms _ _ r]
  have l': "parallel l'" "length (l_numbers l') = length (l_numbers l)" "c \<le> length (l_numbers l)"
      "take c (entries l') = filter (\<lambda>(n, _). una \<le> n) (entries l)" "l_mss l' = l_mss l"
    by simp_all
  show ?thesis
  proof (cases "c < length (l_numbers l')")
    case True
    with l' r show ?thesis
      by (simp add: AckList_Clear_def entries_take) (simp add: parallel_def)
  next
    case False
    with l'(1,2) have "take c (entries l') = entries l'" by (intro take_all) simp
    moreover have "AckList_Clear l una = l'"
      using r False by (simp add: AckList_Clear_def)
    ultimately show ?thesis using l' by simp
  qed
qed

lemma parallel_Add [inv_intros]: "parallel l \<Longrightarrow> parallel (AckList_Add l n t)"
  by (simp add: parallel_def AckList_Add_def)

lemma parallel_Clear [inv_intros]: "parallel l \<Longrightarrow> parallel (AckList_Clear l una)"
  by (simp add: AckList_Clear_spec)

lemma map_fst_filter: "map fst (filter (\<lambda>(n, _). P n) es) = filter P (map fst es)"
  by (induction es) auto

lemma numbers_Clear:
  assumes "parallel l"
  shows "l_numbers (AckList_Clear l una) = filter (\<lambda>n. una \<le> n) (l_numbers l)"
proof -
  have "l_numbers (AckList_Clear l una) = map fst (entries (AckList_Clear l una))"
    using AckList_Clear_spec [OF assms, of una] entries_fst by metis
  also have "\<dots> = filter (\<lambda>n. una \<le> n) (map fst (entries l))"
    using AckList_Clear_spec [OF assms, of una] by (simp add: map_fst_filter)
  finally show ?thesis
    using assms by (simp add: entries_fst)
qed

subsection \<open>What a flush writes\<close>

definition due_numbers :: "u32 \<Rightarrow> u32 list \<Rightarrow> u32 list \<Rightarrow> u32 list" where
  "due_numbers current ns nfs = map fst (filter (\<lambda>(n, nf). nf \<le> current) (zip ns nfs))"

lemma due_numbers_Cons [simp]:
  "due_numbers current (n # ns) (nf # nfs) =
     (if nf \<le> current then n # due_numbers current ns nfs else due_numbers current ns nfs)"
  "due_numbers current [] nfs = []"
  by (simp_all add: due_numbers_def)

text \<open>The numbers whose flush time is still to come.\<close>

definition waiting_numbers :: "u32 \<Rightarrow> u32 list \<Rightarrow> u32 list \<Rightarrow> u32 list" where
  "waiting_numbers current ns nfs = map fst (filter (\<lambda>(n, nf). current < nf) (zip ns nfs))"

lemma waiting_numbers_Cons [simp]:
  "waiting_numbers current (n # ns) (nf # nfs) =
     (if current < nf then n # waiting_numbers current ns nfs else waiting_numbers current ns nfs)"
  "waiting_numbers current [] nfs = []"
  by (simp_all add: waiting_numbers_def)

abbreviation lim :: "u32 \<Rightarrow> nat" where
  "lim mss \<equiv> nat (a_Limit (NewAckSegment (ack_limit mss)))"

lemma NewAckSegment_limit: "1 \<le> a_Limit (NewAckSegment n)" "a_Limit (NewAckSegment n) \<le> 128"
  by (simp_all add: NewAckSegment_def ackNumberLimit_def Let_def)

lemma NewAckSegment_empty [simp]: "a_NumberList (NewAckSegment n) = []"
  by (simp add: NewAckSegment_def Let_def)

definition seg_ok :: "u32 \<Rightarrow> ack_segment \<Rightarrow> bool" where
  "seg_ok mss seg \<longleftrightarrow> a_Limit seg = a_Limit (NewAckSegment (ack_limit mss)) \<and>
     length (a_NumberList seg) \<le> lim mss"

lemma PutTimestamp_simps [simp]:
  "a_NumberList (PutTimestamp s t) = a_NumberList s" "a_Limit (PutTimestamp s t) = a_Limit s"
  by (simp_all add: PutTimestamp_def)

lemma PutNumber_simps [simp]:
  "a_NumberList (PutNumber s n) = a_NumberList s @ [n]" "a_Limit (PutNumber s n) = a_Limit s"
  by (simp_all add: PutNumber_def)

lemma AckList_Flush_loop_spec:
  assumes "\<And>s. a_NumberList (wr s) = a_NumberList s" "\<And>s. a_Limit (wr s) = a_Limit s"
    and "length ts = length ns" "length nfs = length ns"
    and "seg_ok mss (g_seg g)" "length (a_NumberList (g_seg g)) < lim mss"
    and "\<forall>s \<in> set (g_out g). seg_ok mss s"
    and "AckList_Flush_loop wr mss current rto ns ts nfs g = (nfs', g')"
  shows "length nfs' = length ns \<and>
     concat (map a_NumberList (g_out g')) @ a_NumberList (g_seg g') =
       concat (map a_NumberList (g_out g)) @ a_NumberList (g_seg g) @ due_numbers current ns nfs \<and>
     seg_ok mss (g_seg g') \<and> length (a_NumberList (g_seg g')) < lim mss \<and>
     (\<forall>s \<in> set (g_out g'). seg_ok mss s) \<and> set (g_candidates g') \<subseteq> set (g_candidates g) \<union> set ns"
  using assms(3-)
proof (induction ns arbitrary: ts nfs g nfs' g')
  case Nil
  then show ?case by simp
next
  case (Cons n ns)
  obtain t ts1 nf nfs1 where eq: "ts = t # ts1" "nfs = nf # nfs1"
    using Cons.prems by (cases ts; cases nfs; simp)
  show ?case
  proof (cases "nf > current")
    case True
    define g1 where "g1 = (if length (g_candidates g) < 128
                    then g\<lparr>g_candidates := g_candidates g @ [n]\<rparr> else g)"
    obtain nfs2 g2 where call: "AckList_Flush_loop wr mss current rto ns ts1 nfs1 g1 = (nfs2, g2)"
      by fastforce
    then have "nfs' = nf # nfs2" "g' = g2"
      using Cons.prems(6) True eq by (simp_all flip: g1_def)
    with call have nfs2: "AckList_Flush_loop wr mss current rto ns ts1 nfs1 g1 = (nfs2, g')"
        "nfs' = nf # nfs2" by simp_all
    have g1: "g_seg g1 = g_seg g" "g_out g1 = g_out g"
        "set (g_candidates g1) \<subseteq> set (g_candidates g) \<union> {n}"
      by (auto simp: g1_def)
    have "length nfs2 = length ns \<and>
      concat (map a_NumberList (g_out g')) @ a_NumberList (g_seg g') =
       concat (map a_NumberList (g_out g1)) @ a_NumberList (g_seg g1) @ due_numbers current ns nfs1 \<and>
     seg_ok mss (g_seg g') \<and> length (a_NumberList (g_seg g')) < lim mss \<and>
     (\<forall>s \<in> set (g_out g'). seg_ok mss s) \<and> set (g_candidates g') \<subseteq> set (g_candidates g1) \<union> set ns"
      using Cons.prems g1 eq by (intro Cons.IH [OF _ _ _ _ _ nfs2(1)]) auto
    with True eq g1 nfs2 show ?thesis by auto
  next
    case False
    define seg where "seg = PutTimestamp (PutNumber (g_seg g) n) t"
    define g1 where "g1 = (if ack_IsFull seg
                    then g\<lparr>g_out := g_out g @ [wr seg], g_seg := NewAckSegment (ack_limit mss),
                           g_dirty := False\<rparr>
                    else g\<lparr>g_seg := seg\<rparr>)"
    obtain nfs2 g2 where call: "AckList_Flush_loop wr mss current rto ns ts1 nfs1 g1 = (nfs2, g2)"
      by fastforce
    then have "nfs' = (current + flush_timeout rto) # nfs2" "g' = g2"
      using Cons.prems(6) False eq by (simp_all add: Let_def flip: g1_def seg_def)
    with call have nfs2: "AckList_Flush_loop wr mss current rto ns ts1 nfs1 g1 = (nfs2, g')"
        "nfs' = (current + flush_timeout rto) # nfs2" by simp_all
    have seg: "a_NumberList seg = a_NumberList (g_seg g) @ [n]" "seg_ok mss seg"
      using Cons.prems(3,4) by (auto simp: seg_def seg_ok_def)
    have lim0: "0 < lim mss" using NewAckSegment_limit [of "ack_limit mss"] by simp
    have full: "ack_IsFull seg \<longleftrightarrow> length (a_NumberList seg) = lim mss"
      using seg(2) NewAckSegment_limit [of "ack_limit mss"] by (auto simp: ack_IsFull_def seg_ok_def)
    have g1: "seg_ok mss (g_seg g1)" "length (a_NumberList (g_seg g1)) < lim mss"
        "\<forall>s \<in> set (g_out g1). seg_ok mss s" "g_candidates g1 = g_candidates g"
        "concat (map a_NumberList (g_out g1)) @ a_NumberList (g_seg g1) =
         concat (map a_NumberList (g_out g)) @ a_NumberList (g_seg g) @ [n]"
      using Cons.prems(5) seg lim0 full assms(1,2)
      by (auto simp: g1_def seg_ok_def le_less)
    have "length nfs2 = length ns \<and>
      concat (map a_NumberList (g_out g')) @ a_NumberList (g_seg g') =
       concat (map a_NumberList (g_out g1)) @ a_NumberList (g_seg g1) @ due_numbers current ns nfs1 \<and>
     seg_ok mss (g_seg g') \<and> length (a_NumberList (g_seg g')) < lim mss \<and>
     (\<forall>s \<in> set (g_out g'). seg_ok mss s) \<and> set (g_candidates g') \<subseteq> set (g_candidates g1) \<union> set ns"
      using Cons.prems g1 eq by (intro Cons.IH [OF _ _ _ _ _ nfs2(1)]) auto
    moreover have "concat (map a_NumberList (g_out g1)) @ a_NumberList (g_seg g1) @ ds =
        concat (map a_NumberList (g_out g)) @ a_NumberList (g_seg g) @ n # ds" for ds
      using g1(5) by (metis append.assoc append_Cons append_Nil)
    ultimately show ?thesis
      using False eq g1 nfs2 by auto
  qed
qed

lemma AckList_Flush_loop_rest:
  assumes "length ts = length ns" "length nfs = length ns" "length (g_candidates g) \<le> 128"
    and "AckList_Flush_loop wr mss current rto ns ts nfs g = (nfs', g')"
  shows "g_candidates g' = take 128 (g_candidates g @ waiting_numbers current ns nfs) \<and>
     nfs' = map (\<lambda>nf. if nf \<le> current then current + flush_timeout rto else nf) nfs"
  using assms
proof (induction wr mss current rto ns ts nfs g arbitrary: nfs' g' rule: AckList_Flush_loop.induct)
  case (1 wr mss current rto n ns t ts nf nfs g)
  show ?case
  proof (cases "nf > current")
    case True
    define g1 where "g1 = (if length (g_candidates g) < 128 then g\<lparr>g_candidates := g_candidates g @ [n]\<rparr> else g)"
    obtain nfs2 g2 where call: "AckList_Flush_loop wr mss current rto ns ts nfs g1 = (nfs2, g2)" by fastforce
    then have r: "nfs' = nf # nfs2" "g' = g2"
      using "1.prems"(4) True by (simp_all flip: g1_def)
    have l: "length (g_candidates g1) \<le> 128"
      using "1.prems"(3) by (auto simp: g1_def)
    have t: "take 128 (g_candidates g1 @ xs) = take 128 (g_candidates g @ n # xs)" for xs
      using "1.prems"(3) by (auto simp: g1_def take_Cons' diff_commute [of 128 1])
    have "g_candidates g2 = take 128 (g_candidates g1 @ waiting_numbers current ns nfs) \<and>
        nfs2 = map (\<lambda>nf. if nf \<le> current then current + flush_timeout rto else nf) nfs"
      using "1.prems"(1,2) by (intro "1.IH"(1) [OF True g1_def _ _ l call]) simp_all
    with True r t show ?thesis by (simp add: not_le [symmetric])
  next
    case False
    define seg where "seg = PutTimestamp (PutNumber (g_seg g) n) t"
    define g1 where "g1 = (if ack_IsFull seg
                    then g\<lparr>g_out := g_out g @ [wr seg], g_seg := NewAckSegment (ack_limit mss),
                           g_dirty := False\<rparr>
                    else g\<lparr>g_seg := seg\<rparr>)"
    obtain nfs2 g2 where call: "AckList_Flush_loop wr mss current rto ns ts nfs g1 = (nfs2, g2)" by fastforce
    then have r: "nfs' = (current + flush_timeout rto) # nfs2" "g' = g2"
      using "1.prems"(4) False by (simp_all add: Let_def flip: g1_def seg_def)
    have c: "g_candidates g1 = g_candidates g" by (simp add: g1_def)
    have "g_candidates g2 = take 128 (g_candidates g1 @ waiting_numbers current ns nfs) \<and>
        nfs2 = map (\<lambda>nf. if nf \<le> current then current + flush_timeout rto else nf) nfs"
      using "1.prems"(1-3) c by (intro "1.IH"(2) [OF False seg_def g1_def _ _ _ call]) simp_all
    with False r c show ?thesis by (simp add: not_less)
  qed
qed simp_all

lemma PutCandidates_spec:
  assumes "seg_ok mss seg"
  shows "\<exists>k. a_NumberList (PutCandidates seg ns) = a_NumberList seg @ take k ns \<and>
     seg_ok mss (PutCandidates seg ns)"
  using assms
proof (induction seg ns rule: PutCandidates.induct)
  case (2 seg n ns)
  show ?case
  proof (cases "ack_IsFull seg")
    case False
    then have "seg_ok mss (PutNumber seg n)"
      using "2.prems" NewAckSegment_limit [of "ack_limit mss"]
      by (auto simp: seg_ok_def ack_IsFull_def)
    with 2 False obtain k where "a_NumberList (PutCandidates (PutNumber seg n) ns) =
        a_NumberList (PutNumber seg n) @ take k ns"
        "seg_ok mss (PutCandidates (PutNumber seg n) ns)" by auto
    with False show ?thesis by (intro exI [of _ "Suc k"]) simp
  qed (use 2 in \<open>auto intro!: exI [of _ 0]\<close>)
qed simp

lemma AckList_Flush_spec:
  assumes "parallel l"
    and wr: "\<And>s. a_NumberList (wr s) = a_NumberList s" "\<And>s. a_Limit (wr s) = a_Limit s"
    and fl: "AckList_Flush wr l current rto = (l', out)"
  shows "parallel l' \<and> l_numbers l' = l_numbers l \<and> l_mss l' = l_mss l \<and>
     l_nextFlush l' = map (\<lambda>nf. if nf \<le> current then current + flush_timeout rto else nf) (l_nextFlush l) \<and>
     (\<exists>k. concat (map a_NumberList out) = due_numbers current (l_numbers l) (l_nextFlush l) @
        take k (waiting_numbers current (l_numbers l) (l_nextFlush l))) \<and>
     (\<forall>s \<in> set out. seg_ok (l_mss l) s) \<and> l_dirty l' = False"
proof -
  obtain nfs g where lp: "AckList_Flush_loop wr (l_mss l) current rto
      (l_numbers l) (l_timestamps l) (l_nextFlush l)
      \<lparr>g_candidates = [], g_dirty = l_dirty l, g_seg = NewAckSegment (ack_limit (l_mss l)), g_out = []\<rparr>
      = (nfs, g)" by fastforce
  have sp: "length nfs = length (l_numbers l)"
      "concat (map a_NumberList (g_out g)) @ a_NumberList (g_seg g) =
         due_numbers current (l_numbers l) (l_nextFlush l)"
      "seg_ok (l_mss l) (g_seg g)" "\<forall>s \<in> set (g_out g). seg_ok (l_mss l) s"
    using AckList_Flush_loop_spec [OF wr _ _ _ _ _ lp] assms(1)
      NewAckSegment_limit [of "ack_limit (l_mss l)"]
    by (auto simp: parallel_def seg_ok_def)
  have rest: "g_candidates g = take 128 (waiting_numbers current (l_numbers l) (l_nextFlush l))"
      "nfs = map (\<lambda>nf. if nf \<le> current then current + flush_timeout rto else nf) (l_nextFlush l)"
    using AckList_Flush_loop_rest [OF _ _ _ lp] assms(1) by (simp_all add: parallel_def)
  define m where "m = l\<lparr>l_nextFlush := nfs, l_flushCandidates := g_candidates g, l_dirty := g_dirty g\<rparr>"
  have m: "parallel m" "l_numbers m = l_numbers l" "l_mss m = l_mss l" "l_dirty m = g_dirty g" "l_nextFlush m = nfs"
    using assms(1) sp(1) by (auto simp: m_def parallel_def)
  show ?thesis
  proof (cases "g_dirty g \<or> \<not> ack_IsEmpty (g_seg g)")
    case True
    then have r: "l' = m\<lparr>l_dirty := False\<rparr>"
        "out = g_out g @ [wr (PutCandidates (g_seg g) (g_candidates g))]"
      using fl lp by (auto simp: AckList_Flush_def m_def Let_def)
    obtain k where k: "a_NumberList (PutCandidates (g_seg g) (g_candidates g)) =
          a_NumberList (g_seg g) @ take k (g_candidates g)"
        "seg_ok (l_mss l) (PutCandidates (g_seg g) (g_candidates g))"
      using PutCandidates_spec [OF sp(3)] by blast
    have "concat (map a_NumberList out) = due_numbers current (l_numbers l) (l_nextFlush l) @
        take (min k 128) (waiting_numbers current (l_numbers l) (l_nextFlush l))"
      using r(2) k(1) wr(1) sp(2) rest(1) by (simp add: min_def)
    then have out: "\<exists>k. concat (map a_NumberList out) = due_numbers current (l_numbers l) (l_nextFlush l) @
        take k (waiting_numbers current (l_numbers l) (l_nextFlush l))" by blast
    have "\<forall>s \<in> set out. seg_ok (l_mss l) s"
      using r(2) k(2) sp(4) wr by (auto simp: seg_ok_def)
    moreover have "parallel l' \<and> l_numbers l' = l_numbers l \<and> l_mss l' = l_mss l \<and> l_dirty l' = False \<and>
        l_nextFlush l' = map (\<lambda>nf. if nf \<le> current then current + flush_timeout rto else nf) (l_nextFlush l)"
      using r(1) m rest(2) by (simp add: parallel_def)
    ultimately show ?thesis using out by blast
  next
    case False
    then have r: "l' = m" "out = g_out g" "\<not> g_dirty g" "a_NumberList (g_seg g) = []"
      using fl lp by (auto simp: AckList_Flush_def m_def ack_IsEmpty_def Let_def)
    with sp m rest(2) show ?thesis by (auto intro!: exI [of _ 0])
  qed
qed

section \<open>Delivery in order: the worker refines a stream\<close>

text \<open>
  \<open>f\<close> is the sequence of payloads the peer pushed, \<open>N\<close> how many. A segment belongs to the
  stream when its number is below \<open>N\<close> and its payload is the one with that number.
\<close>

definition of_stream :: "(nat \<Rightarrow> bytes) \<Rightarrow> nat \<Rightarrow> data_segment \<Rightarrow> bool" where
  "of_stream f N s \<longleftrightarrow> unat (d_Number s) < N \<and> d_payload s = f (unat (d_Number s))"

definition pending :: "receiving_worker \<Rightarrow> bytes" where
  "pending w = (case r_leftOver w of None \<Rightarrow> [] | Some mb \<Rightarrow> concat mb)"

definition received :: "receiving_worker \<Rightarrow> u32 \<Rightarrow> bool" where
  "received w n \<longleftrightarrow> n < r_nextNumber w \<or> r_window w n \<noteq> None"

definition window_ok :: "(nat \<Rightarrow> bytes) \<Rightarrow> nat \<Rightarrow> receiving_window \<Rightarrow> u32 \<Rightarrow> bool" where
  "window_ok f N win nxt \<longleftrightarrow>
     (\<forall>n s. win n = Some s \<longrightarrow> d_Number s = n \<and> of_stream f N s \<and> nxt \<le> n) \<and> unat nxt \<le> N"

definition recv_inv :: "(nat \<Rightarrow> bytes) \<Rightarrow> nat \<Rightarrow> receiving_worker \<Rightarrow> bytes \<Rightarrow> bool" where
  "recv_inv f N w D \<longleftrightarrow>
     window_ok f N (r_window w) (r_nextNumber w) \<and>
     D @ pending w = concat (map f [0..<unat (r_nextNumber w)]) \<and>
     parallel (r_acklist w) \<and> (\<forall>n \<in> set (l_numbers (r_acklist w)). received w n)"

lemma recv_inv_New [inv_intros]: "recv_inv f N (NewReceivingWorker mss inFlight) []"
  by (simp add: recv_inv_def window_ok_def pending_def NewReceivingWorker_def parallel_def NewAckList_def)

lemma upt_split: "i \<le> j \<Longrightarrow> j \<le> k \<Longrightarrow> [i..<k] = [i..<j] @ [j..<k]"
  using upt_add_eq_append [of i j "k - j"] by simp

lemma Read_loop_spec:
  assumes "window_ok f N win nxt" "N \<le> 2 ^ 31" "Read_loop win nxt mb = (win', nxt', mb')"
  shows "window_ok f N win' nxt' \<and> nxt \<le> nxt' \<and>
     concat mb' = concat mb @ concat (map f [unat nxt..<unat nxt']) \<and> win' nxt' = None \<and>
     (\<forall>n. nxt' \<le> n \<longrightarrow> win' n = win n) \<and> (\<forall>n. nxt \<le> n \<and> n < nxt' \<longrightarrow> win n \<noteq> None)"
  using assms
proof (induction win nxt mb rule: Read_loop.induct)
  case (1 win nxt mb)
  show ?case
  proof (cases "win nxt")
    case None
    with "1.prems" have "win' = win" "nxt' = nxt" "mb' = mb"
      by (simp_all add: Read_loop.simps)
    with None "1.prems"(1) show ?thesis by auto
  next
    case (Some seg)
    then have seg: "d_Number seg = nxt" "of_stream f N seg"
      using "1.prems"(1) by (auto simp: window_ok_def)
    then have lt: "unat nxt < N" and pl: "d_payload seg = f (unat nxt)"
      by (auto simp: of_stream_def)
    have n1: "unat (nxt + 1) = unat nxt + 1"
      using lt assms(2) by (intro unat_Suc_no_wrap) simp
    have le1: "m = nxt \<or> nxt + 1 \<le> m" if "nxt \<le> m" for m
      using that n1 by (auto simp: word_le_nat_alt order_le_less word_unat_eq_iff)
    have ok: "window_ok f N (win(nxt := None)) (nxt + 1)"
      using "1.prems"(1) lt n1 le1 by (auto simp: window_ok_def split: if_splits)
    have call: "Read_loop (win(nxt := None)) (nxt + 1) (mb @ [d_payload seg]) = (win', nxt', mb')"
      using "1.prems"(3) Some by (subst (asm) Read_loop.simps) simp
    have IH: "window_ok f N win' nxt'" "nxt + 1 \<le> nxt'"
        "concat mb' = concat (mb @ [d_payload seg]) @ concat (map f [unat (nxt + 1)..<unat nxt'])"
        "win' nxt' = None" "\<forall>n. nxt' \<le> n \<longrightarrow> win' n = (win(nxt := None)) n"
        "\<forall>n. nxt + 1 \<le> n \<and> n < nxt' \<longrightarrow> (win(nxt := None)) n \<noteq> None"
      using "1.IH" [OF Some ok assms(2) call] by blast+
    have lt': "nxt < nxt'"
      using IH(2) n1 by (simp add: word_less_nat_alt word_le_nat_alt)
    have "[unat nxt..<unat nxt'] = unat nxt # [unat (nxt + 1)..<unat nxt']"
      using lt' n1 by (simp add: word_less_nat_alt upt_conv_Cons)
    moreover have "win' n = win n" if "nxt' \<le> n" for n
      using IH(5) that lt' by auto
    moreover have "win n \<noteq> None" if "nxt \<le> n" "n < nxt'" for n
      using IH(6) le1 [OF that(1)] that Some by (auto split: if_splits)
    ultimately show ?thesis
      using IH lt' pl by auto
  qed
qed

lemma recv_inv_ProcessSegment [inv_intros]:
  assumes inv: "recv_inv f N w D" and s: "of_stream f N s"
    and N: "N \<le> 2 ^ 31" "unat (r_windowSize w) \<le> 2 ^ 31"
  shows "recv_inv f N (ReceivingWorker_ProcessSegment w s) D"
proof (cases "d_Number s - r_nextNumber w \<ge> r_windowSize w")
  case True
  with inv show ?thesis by (simp add: ReceivingWorker_ProcessSegment_def Let_def)
next
  case False
  have le: "r_nextNumber w \<le> d_Number s"
  proof (rule ccontr)
    assume "\<not> r_nextNumber w \<le> d_Number s"
    then have lt: "d_Number s < r_nextNumber w" by simp
    have "unat (r_nextNumber w) \<le> 2 ^ 31"
      using inv N(1) by (auto simp: recv_inv_def window_ok_def)
    then have "2 ^ 31 \<le> unat (d_Number s - r_nextNumber w)"
      using unat_diff_wrap [OF lt] by simp
    with False N(2) show False by (simp add: word_le_nat_alt)
  qed
  let ?w = "ReceivingWorker_ProcessSegment w s"
  have win: "r_window ?w = (if r_window w (d_Number s) = None then (r_window w)(d_Number s \<mapsto> s) else r_window w)"
      "r_nextNumber ?w = r_nextNumber w" "r_leftOver ?w = r_leftOver w"
      "r_acklist ?w = AckList_Add (AckList_Clear (r_acklist w) (d_SendingNext s)) (d_Number s) (d_Timestamp s)"
    using False by (auto simp: ReceivingWorker_ProcessSegment_def Let_def ReceivingWindow_Set_def)
  have "window_ok f N (r_window ?w) (r_nextNumber ?w)"
    using inv s le by (auto simp: recv_inv_def window_ok_def win)
  moreover have "\<forall>n \<in> set (l_numbers (r_acklist ?w)). received ?w n"
    using inv by (auto simp: recv_inv_def received_def win AckList_Add_def numbers_Clear)
  moreover have "parallel (r_acklist ?w)"
    using inv unfolding win(4) by (intro inv_intros) (simp add: recv_inv_def)
  ultimately show ?thesis
    using inv by (simp add: recv_inv_def pending_def win(2,3))
qed

lemma recv_inv_ProcessSendingNext [inv_intros]:
  "recv_inv f N w D \<Longrightarrow> recv_inv f N (ProcessSendingNext w n) D"
  by (auto simp: recv_inv_def ProcessSendingNext_def pending_def received_def numbers_Clear parallel_Clear)

lemma recv_inv_Flush [inv_intros]:
  assumes "recv_inv f N w D"
  shows "recv_inv f N (fst (ReceivingWorker_Flush conv rtc rto w current)) D"
proof -
  obtain l out where fl: "AckList_Flush (ReceivingWorker_Write conv rtc w) (r_acklist w) current rto = (l, out)"
    by fastforce
  have "parallel l \<and> l_numbers l = l_numbers (r_acklist w)"
    using assms AckList_Flush_spec [OF _ _ _ fl] by (simp add: recv_inv_def ReceivingWorker_Write_def)
  with assms fl show ?thesis
    by (simp add: recv_inv_def ReceivingWorker_Flush_def pending_def received_def)
qed

lemma recv_inv_ReadMultiBuffer:
  assumes inv: "recv_inv f N w D" and N: "N \<le> 2 ^ 31"
    and rd: "ReceivingWorker_ReadMultiBuffer w = (w', mb)"
  shows "recv_inv f N w' (D @ concat mb)" and "r_leftOver w' = None"
    and "r_windowSize w' = r_windowSize w"
    and "r_leftOver w = None \<Longrightarrow> r_window w' (r_nextNumber w') = None"
proof -
  have "recv_inv f N w' (D @ concat mb) \<and> r_leftOver w' = None \<and> r_windowSize w' = r_windowSize w \<and>
     (r_leftOver w = None \<longrightarrow> r_window w' (r_nextNumber w') = None)"
  proof (cases "r_leftOver w")
    case (Some lo)
    with inv rd show ?thesis
      by (auto simp: ReceivingWorker_ReadMultiBuffer_def recv_inv_def pending_def received_def)
  next
    case None
    obtain win nxt mb1 where rl: "Read_loop (r_window w) (r_nextNumber w) [] = (win, nxt, mb1)"
      by (cases "Read_loop (r_window w) (r_nextNumber w) []")
    with None rd have w': "w' = w\<lparr>r_window := win, r_nextNumber := nxt\<rparr>" "mb = mb1"
      by (auto simp: ReceivingWorker_ReadMultiBuffer_def)
    have ok: "window_ok f N (r_window w) (r_nextNumber w)"
      using inv by (simp add: recv_inv_def)
    note sp = Read_loop_spec [OF ok N rl]
    have "D @ concat mb = concat (map f [0..<unat nxt])"
      using inv sp None w' upt_split [of 0 "unat (r_nextNumber w)" "unat nxt"]
      by (simp add: recv_inv_def pending_def word_le_nat_alt)
    moreover have "received w' n" if "received w n" for n
      using that sp w' by (cases "nxt \<le> n") (auto simp: received_def not_le)
    ultimately show ?thesis
      using inv sp w' None by (auto simp: recv_inv_def pending_def)
  qed
  then show "recv_inv f N w' (D @ concat mb)" "r_leftOver w' = None"
    "r_windowSize w' = r_windowSize w"
    "r_leftOver w = None \<Longrightarrow> r_window w' (r_nextNumber w') = None" by blast+
qed

lemma recv_inv_Read:
  assumes inv: "recv_inv f N w D" and N: "N \<le> 2 ^ 31"
  shows "recv_inv f N (fst (ReceivingWorker_Read w n)) (D @ snd (ReceivingWorker_Read w n))"
    and "r_windowSize (fst (ReceivingWorker_Read w n)) = r_windowSize w"
proof -
  obtain w' mb where rd: "ReceivingWorker_ReadMultiBuffer w = (w', mb)" by fastforce
  note R = recv_inv_ReadMultiBuffer [OF inv N rd]
  obtain rest d where sp: "split_contents mb n = (rest, d)" by fastforce
  then have cat: "concat rest = drop n (concat mb)" "d = take n (concat mb)"
    using split_contents_concat [of mb n] by simp_all
  have D: "D @ concat mb = concat (map f [0..<unat (r_nextNumber w')])"
    using R(1,2) by (simp add: recv_inv_def pending_def)
  have "recv_inv f N w'' (D @ d)"
    if "w'' = (if concat rest \<noteq> [] then w'\<lparr>r_leftOver := Some rest\<rparr> else w')" "concat mb \<noteq> []" for w''
    using R(1,2) D cat that by (auto simp: recv_inv_def pending_def received_def)
  with rd sp R(1) show "recv_inv f N (fst (ReceivingWorker_Read w n)) (D @ snd (ReceivingWorker_Read w n))"
    by (cases "concat mb = []") (simp_all add: ReceivingWorker_Read_def del: concat_eq_Nil_conv)
  from rd sp R(3) show "r_windowSize (fst (ReceivingWorker_Read w n)) = r_windowSize w"
    by (simp add: ReceivingWorker_Read_def)
qed

subsection \<open>Any sequence of operations\<close>

datatype recv_op =
    RSegment data_segment
  | RSendingNext u32
  | RFlush u16 bool u32 u32
  | RRead nat
  | RReadMultiBuffer

fun recv_apply :: "receiving_worker \<times> bytes \<Rightarrow> recv_op \<Rightarrow> receiving_worker \<times> bytes" where
  "recv_apply (w, D) (RSegment s) = (ReceivingWorker_ProcessSegment w s, D)"
| "recv_apply (w, D) (RSendingNext n) = (ProcessSendingNext w n, D)"
| "recv_apply (w, D) (RFlush conv rtc rto current) =
     (fst (ReceivingWorker_Flush conv rtc rto w current), D)"
| "recv_apply (w, D) (RRead n) = (let (w', d) = ReceivingWorker_Read w n in (w', D @ d))"
| "recv_apply (w, D) RReadMultiBuffer =
     (let (w', mb) = ReceivingWorker_ReadMultiBuffer w in (w', D @ concat mb))"

fun op_of_stream :: "(nat \<Rightarrow> bytes) \<Rightarrow> nat \<Rightarrow> recv_op \<Rightarrow> bool" where
  "op_of_stream f N (RSegment s) = of_stream f N s"
| "op_of_stream f N _ = True"

lemma recv_windowSize_frame [simp]:
  "r_windowSize (ReceivingWorker_ProcessSegment w s) = r_windowSize w"
  "r_windowSize (ProcessSendingNext w n) = r_windowSize w"
  "r_windowSize (fst (ReceivingWorker_Flush conv rtc rto w current)) = r_windowSize w"
  by (simp_all add: ReceivingWorker_ProcessSegment_def ProcessSendingNext_def
      ReceivingWorker_Flush_def Let_def split_beta)

lemma recv_apply_inv:
  assumes "recv_inv f N w D" "op_of_stream f N op" "N \<le> 2 ^ 31" "unat (r_windowSize w) \<le> 2 ^ 31"
    and "recv_apply (w, D) op = (w', D')"
  shows "recv_inv f N w' D' \<and> r_windowSize w' = r_windowSize w"
  using assms recv_inv_Read [OF assms(1,3)]
    recv_inv_ReadMultiBuffer [OF assms(1,3) prod.collapse [symmetric]]
  by (cases op) (auto simp: split_beta simp del: fst_conv intro: inv_intros)

lemma recv_run_inv:
  assumes "recv_inv f N w D" "list_all (op_of_stream f N) ops" "N \<le> 2 ^ 31"
    "unat (r_windowSize w) \<le> 2 ^ 31" "foldl recv_apply (w, D) ops = (w', D')"
  shows "recv_inv f N w' D'"
  using assms
proof (induction ops arbitrary: w D)
  case (Cons op ops)
  obtain w1 D1 where a: "recv_apply (w, D) op = (w1, D1)" by fastforce
  with recv_apply_inv [OF Cons.prems(1) _ Cons.prems(3,4) a] Cons.prems Cons.IH [of w1 D1]
  show ?case by simp
qed simp

section \<open>Properties\<close>

text \<open>C2: whatever segments of a stream arrive, in any order and however often repeated, mixed with
  reads, flushes and clears, the bytes read so far are a prefix of the stream: in order, without
  gap and without duplicate, and together with what is left over they are exactly the payloads
  below the next expected number.\<close>

theorem receiver_delivers_in_order:
  assumes "list_all (op_of_stream f N) ops" "N \<le> 2 ^ 31" "unat inFlight \<le> 2 ^ 31"
    and "foldl recv_apply (NewReceivingWorker mss inFlight, []) ops = (w, D)"
  shows "D @ pending w = concat (map f [0..<unat (r_nextNumber w)]) \<and> unat (r_nextNumber w) \<le> N"
  using recv_run_inv [OF recv_inv_New assms(1,2) _ assms(4)] assms(3)
  by (simp add: NewReceivingWorker_def recv_inv_def window_ok_def)

theorem receiver_delivers_in_order_witness:
  "snd (foldl recv_apply (NewReceivingWorker 1332 8, [])
     [RSegment (NewDataSegment\<lparr>d_Number := 1, d_payload := [20, 21]\<rparr>),
      RSegment (NewDataSegment\<lparr>d_Number := 0, d_payload := [10]\<rparr>),
      RSegment (NewDataSegment\<lparr>d_Number := 1, d_payload := [20, 21]\<rparr>), RRead 2]) = [10, 20] \<and>
   [10, 20] @ pending (fst (foldl recv_apply (NewReceivingWorker 1332 8, [])
     [RSegment (NewDataSegment\<lparr>d_Number := 1, d_payload := [20, 21]\<rparr>),
      RSegment (NewDataSegment\<lparr>d_Number := 0, d_payload := [10]\<rparr>),
      RSegment (NewDataSegment\<lparr>d_Number := 1, d_payload := [20, 21]\<rparr>), RRead 2])) = [10, 20, 21]"
proof -
  let ?ops = "[RSegment (NewDataSegment\<lparr>d_Number := 1, d_payload := [20, 21]\<rparr>),
      RSegment (NewDataSegment\<lparr>d_Number := 0, d_payload := [10]\<rparr>),
      RSegment (NewDataSegment\<lparr>d_Number := 1, d_payload := [20, 21]\<rparr>), RRead 2]"
  let ?f = "\<lambda>n :: nat. if n = 0 then [10] else [20, 21] :: bytes"
  obtain w D where r: "foldl recv_apply (NewReceivingWorker 1332 8, []) ?ops = (w, D)" by fastforce
  have st: "list_all (op_of_stream ?f 2) ?ops"
    by (simp add: of_stream_def)
  have "D = [10, 20]" "r_nextNumber w = 2"
    using r by (auto simp: ReceivingWorker_ProcessSegment_def NewReceivingWorker_def NewDataSegment_def
        ReceivingWindow_Set_def ReceivingWorker_Read_def ReceivingWorker_ReadMultiBuffer_def
        Read_loop.simps Let_def word_le_nat_alt split: if_splits)
  moreover have "D @ pending w = concat (map ?f [0..<unat (r_nextNumber w)])"
    using receiver_delivers_in_order [OF st _ _ r] by simp
  ultimately show ?thesis
    using r by (simp add: upt_rec)
qed

text \<open>C26: a read with nothing left over returns exactly the payloads that can be delivered: those of
  the stream from the next expected number up to the first number that has not arrived; that number
  is the next expected one afterwards, and the segments beyond it stay in the window.\<close>

theorem read_is_complete:
  assumes "recv_inv f N w D" "N \<le> 2 ^ 31" "r_leftOver w = None"
    and "ReceivingWorker_ReadMultiBuffer w = (w', mb)"
  shows "concat mb = concat (map f [unat (r_nextNumber w)..<unat (r_nextNumber w')]) \<and>
    (\<forall>n. r_nextNumber w \<le> n \<and> n < r_nextNumber w' \<longrightarrow> r_window w n \<noteq> None) \<and>
    r_window w (r_nextNumber w') = None \<and> r_nextNumber w \<le> r_nextNumber w' \<and>
    (\<forall>n. r_nextNumber w' \<le> n \<longrightarrow> r_window w' n = r_window w n)"
proof -
  obtain win nxt mb1 where rl: "Read_loop (r_window w) (r_nextNumber w) [] = (win, nxt, mb1)"
    by (cases "Read_loop (r_window w) (r_nextNumber w) []")
  with assms(3,4) have w': "w' = w\<lparr>r_window := win, r_nextNumber := nxt\<rparr>" "mb = mb1"
    by (auto simp: ReceivingWorker_ReadMultiBuffer_def)
  have "window_ok f N (r_window w) (r_nextNumber w)"
    using assms(1) by (simp add: recv_inv_def)
  from Read_loop_spec [OF this assms(2) rl] w' show ?thesis by auto
qed

text \<open>The segments 0, 1 and 3 have arrived.\<close>

definition gap_worker :: receiving_worker where
  "gap_worker = fold (\<lambda>s w. ReceivingWorker_ProcessSegment w s)
     [NewDataSegment\<lparr>d_Number := 3, d_payload := [40]\<rparr>, NewDataSegment\<lparr>d_Number := 0, d_payload := [10]\<rparr>,
      NewDataSegment\<lparr>d_Number := 1, d_payload := [20]\<rparr>] (NewReceivingWorker 1332 8)"

theorem read_is_complete_witness:
  "\<exists>w' mb. ReceivingWorker_ReadMultiBuffer gap_worker = (w', mb) \<and> concat mb = [10, 20] \<and>
     r_nextNumber w' = 2 \<and> r_window w' 3 \<noteq> None"
proof -
  let ?f = "\<lambda>n :: nat. [of_nat (10 * (n + 1))] :: bytes"
  have inv: "recv_inv ?f 4 gap_worker []"
    unfolding gap_worker_def fold_simps o_apply id_apply
    by (intro recv_inv_ProcessSegment recv_inv_New)
      (simp_all add: of_stream_def NewReceivingWorker_def ReceivingWorker_ProcessSegment_def Let_def)
  have g: "r_leftOver gap_worker = None" "r_nextNumber gap_worker = 0" "r_window gap_worker 3 \<noteq> None"
    by (simp_all add: gap_worker_def NewReceivingWorker_def ReceivingWorker_ProcessSegment_def Let_def
        ReceivingWindow_Set_def NewDataSegment_def)
  obtain w' mb where r: "ReceivingWorker_ReadMultiBuffer gap_worker = (w', mb)" by fastforce
  then have n: "r_nextNumber w' = 2"
    by (auto simp: gap_worker_def NewReceivingWorker_def ReceivingWorker_ProcessSegment_def Let_def
        ReceivingWindow_Set_def NewDataSegment_def ReceivingWorker_ReadMultiBuffer_def Read_loop.simps
        word_le_nat_alt split: if_splits)
  show ?thesis
    using read_is_complete [OF inv _ g(1) r] r n g by (auto simp: upt_rec word_le_nat_alt)
qed

text \<open>C30: clearing keeps exactly the acknowledgements not below the peer's first unacknowledged
  number, in order, with their timestamps and flush times, in the three parallel arrays.\<close>

theorem acklist_clear_exact:
  assumes "parallel l"
  shows "parallel (AckList_Clear l una) \<and>
     entries (AckList_Clear l una) = filter (\<lambda>(n, _). una \<le> n) (entries l)"
  using AckList_Clear_spec [OF assms] by simp

theorem acklist_clear_exact_witness:
  "entries (AckList_Clear (AckList_Add (AckList_Add (AckList_Add (NewAckList 1350) 5 50) 9 51) 6 52) 6)
     = [(9, 51, 0), (6, 52, 0)]"
  using acklist_clear_exact [of "AckList_Add (AckList_Add (AckList_Add (NewAckList 1350) 5 50) 9 51) 6 52" 6]
  by (simp add: parallel_def AckList_Add_def NewAckList_def entries_def)

text \<open>C16: a flush writes exactly the entries of the list whose flush time has come, each entry once and
  in order, followed by the first few of the entries that still wait; the entries written are due
  again one timeout later and the others keep their time. No segment carries more than the limit, so
  every acknowledgement fits a segment size of at least 21 bytes.\<close>

theorem acklist_flush_complete:
  assumes "parallel l" "21 \<le> l_mss l"
    and "AckList_Flush (ReceivingWorker_Write conv rtc w) l current rto = (l', out)"
  shows "(\<exists>k. concat (map a_NumberList out) = due_numbers current (l_numbers l) (l_nextFlush l) @
        take k (waiting_numbers current (l_numbers l) (l_nextFlush l))) \<and>
     l_numbers l' = l_numbers l \<and>
     l_nextFlush l' = map (\<lambda>nf. if nf \<le> current then current + flush_timeout rto else nf) (l_nextFlush l) \<and>
     (\<forall>s \<in> set out. length (a_NumberList s) \<le> 128 \<and> ack_ByteSize s \<le> unat (l_mss l))"
proof -
  obtain k where k: "unat (l_mss l) = 17 + k" "4 \<le> k"
    using assms(2) by (auto simp: word_le_nat_alt intro!: that [of "unat (l_mss l) - 17"])
  then have "ack_limit (l_mss l) = int (k div 4)"
    by (simp add: ack_limit_def signed_divide_int_def sgn_if zdiv_int)
  moreover have "1 \<le> k div 4" "4 * (k div 4) \<le> k"
    using k(2) by auto
  ultimately have lim: "17 + 4 * lim (l_mss l) \<le> unat (l_mss l)" "lim (l_mss l) \<le> 128"
    using k by (auto simp: NewAckSegment_def ackNumberLimit_def Let_def)
  from AckList_Flush_spec [OF assms(1) _ _ assms(3)]
  have "\<forall>s \<in> set out. seg_ok (l_mss l) s" "l_numbers l' = l_numbers l"
      "l_nextFlush l' = map (\<lambda>nf. if nf \<le> current then current + flush_timeout rto else nf) (l_nextFlush l)"
      "\<exists>k. concat (map a_NumberList out) = due_numbers current (l_numbers l) (l_nextFlush l) @
        take k (waiting_numbers current (l_numbers l) (l_nextFlush l))"
    by (simp_all add: ReceivingWorker_Write_def)
  then show ?thesis
    using lim by (fastforce simp: seg_ok_def ack_ByteSize_def)
qed

text \<open>Of the three entries the second is not due: at time 60 the first and third are written.\<close>

theorem acklist_flush_complete_witness:
  "\<exists>k. concat (map a_NumberList (snd (AckList_Flush (ReceivingWorker_Write 1 False (NewReceivingWorker 1332 8))
      \<lparr>l_timestamps = [50, 51, 52], l_numbers = [5, 9, 6], l_nextFlush = [0, 70, 60], l_flushCandidates = [],
       l_dirty = False, l_mss = 1350\<rparr> 60 100))) = [5, 6] @ take k [9]"
proof -
  let ?l = "\<lparr>l_timestamps = [50, 51, 52], l_numbers = [5, 9, 6], l_nextFlush = [0, 70, 60],
      l_flushCandidates = [], l_dirty = False, l_mss = 1350\<rparr>"
  have p: "parallel ?l" by (simp add: parallel_def)
  show ?thesis
    using acklist_flush_complete [OF p _ prod.collapse [symmetric],
        of 1 False "NewReceivingWorker 1332 8" 60 100] by simp
qed

end
