(* ===== verification/Kcp_System.thy ===== *)
theory Kcp_System
  imports Kcp_Sending Kcp_Receiving
begin

text \<open>
  One direction of an mKCP connection end to end: the sending worker of one peer, the receiving
  worker of the other, and a network between them that may lose, repeat, delay and reorder
  whatever was sent. The network is the set of all segments ever sent: delivering takes one of them and
  leaves it there, losing is not delivering. The numbers of command-only segments travel the same way.
  \<open>f\<close> is the stream of payloads the application writes. It covers the open phase of a connection:
  closing drops what is in the sending window.
\<close>

record kcp_system =
  snd_side :: sending_worker
  rcv_side :: receiving_worker
  net_data :: "data_segment set"
  net_ack :: "ack_segment set"
  net_next :: "u32 set"
  net_first :: "u32 set"
  delivered :: bytes

definition initial_system :: "u32 \<Rightarrow> u32 \<Rightarrow> u32 \<Rightarrow> u32 \<Rightarrow> kcp_system" where
  "initial_system snd_sz buf_sz mss rcv_sz =
     \<lparr>snd_side = NewSendingWorker snd_sz buf_sz, rcv_side = NewReceivingWorker mss rcv_sz,
      net_data = {}, net_ack = {}, net_next = {}, net_first = {}, delivered = []\<rparr>"

inductive sys_step :: "(nat \<Rightarrow> bytes) \<Rightarrow> kcp_system \<Rightarrow> kcp_system \<Rightarrow> bool" for f where
  sys_push: "unat (nextNumber (snd_side s)) < 2 ^ 31 \<Longrightarrow>
    sys_step f s (s\<lparr>snd_side := fst (SendingWorker_Push (snd_side s) (f (unat (nextNumber (snd_side s)))))\<rparr>)"
| sys_flush_snd: "SendingWorker_Flush e (snd_side s) now = (w, out, upd) \<Longrightarrow>
    sys_step f s (s\<lparr>snd_side := w, net_data := net_data s \<union> set out\<rparr>)"
| sys_data: "x \<in> net_data s \<Longrightarrow>
    sys_step f s (s\<lparr>rcv_side := ReceivingWorker_ProcessSegment (rcv_side s) x\<rparr>)"
| sys_flush_rcv: "ReceivingWorker_Flush conv rtc rto (rcv_side s) now = (w, out) \<Longrightarrow>
    sys_step f s (s\<lparr>rcv_side := w, net_ack := net_ack s \<union> set out\<rparr>)"
| sys_ack: "x \<in> net_ack s \<Longrightarrow>
    sys_step f s (s\<lparr>snd_side := fst (SendingWorker_ProcessSegment (snd_side s) now x rto)\<rparr>)"
| sys_ping_rcv: "sys_step f s (s\<lparr>net_next := insert (r_nextNumber (rcv_side s)) (net_next s)\<rparr>)"
| sys_next: "n \<in> net_next s \<Longrightarrow> sys_step f s (s\<lparr>snd_side := ProcessReceivingNext (snd_side s) n\<rparr>)"
| sys_ping_snd: "sys_step f s (s\<lparr>net_first := insert (firstUnacknowledged (snd_side s)) (net_first s)\<rparr>)"
| sys_first: "n \<in> net_first s \<Longrightarrow> sys_step f s (s\<lparr>rcv_side := ProcessSendingNext (rcv_side s) n\<rparr>)"
| sys_read: "ReceivingWorker_Read (rcv_side s) k = (w, d) \<Longrightarrow>
    sys_step f s (s\<lparr>rcv_side := w, delivered := delivered s @ d\<rparr>)"
| sys_read_multi: "ReceivingWorker_ReadMultiBuffer (rcv_side s) = (w, mb) \<Longrightarrow>
    sys_step f s (s\<lparr>rcv_side := w, delivered := delivered s @ concat mb\<rparr>)"

section \<open>What the receiver has\<close>

lemma received_ProcessSegment:
  "received (ReceivingWorker_ProcessSegment w x) n \<Longrightarrow> received w n \<or> n = d_Number x"
  "received w n \<Longrightarrow> received (ReceivingWorker_ProcessSegment w x) n"
  "r_nextNumber (ReceivingWorker_ProcessSegment w x) = r_nextNumber w"
  by (auto simp: received_def ReceivingWorker_ProcessSegment_def Let_def ReceivingWindow_Set_def split: if_splits)

lemma received_frame:
  "received (fst (ReceivingWorker_Flush conv rtc rto w now)) n = received w n"
  "r_nextNumber (fst (ReceivingWorker_Flush conv rtc rto w now)) = r_nextNumber w"
  "received (ProcessSendingNext w k) n = received w n"
  "r_nextNumber (ProcessSendingNext w k) = r_nextNumber w"
  by (simp_all add: received_def ReceivingWorker_Flush_def ProcessSendingNext_def split_beta)

lemma received_ReadMultiBuffer:
  assumes "recv_inv f N w D" "N \<le> 2 ^ 31" "ReceivingWorker_ReadMultiBuffer w = (w', mb)"
  shows "received w' n = received w n \<and> r_nextNumber w \<le> r_nextNumber w'"
proof (cases "r_leftOver w")
  case (Some lo)
  with assms(3) show ?thesis by (auto simp: ReceivingWorker_ReadMultiBuffer_def received_def)
next
  case None
  obtain win nxt mb1 where rl: "Read_loop (r_window w) (r_nextNumber w) [] = (win, nxt, mb1)"
    by (cases "Read_loop (r_window w) (r_nextNumber w) []")
  with None assms(3) have w': "w' = w\<lparr>r_window := win, r_nextNumber := nxt\<rparr>"
    by (auto simp: ReceivingWorker_ReadMultiBuffer_def)
  have "window_ok f N (r_window w) (r_nextNumber w)" using assms(1) by (simp add: recv_inv_def)
  note sp = Read_loop_spec [OF this assms(2) rl]
  have "received w n" if "n < nxt"
  proof (cases "n < r_nextNumber w")
    case False
    with sp that have "r_window w n \<noteq> None" by (simp add: not_less)
    then show ?thesis by (simp add: received_def)
  qed (simp add: received_def)
  then show ?thesis
    using w' sp by (cases "nxt \<le> n") (auto simp: received_def not_le)
qed

lemma received_Read:
  assumes "recv_inv f N w D" "N \<le> 2 ^ 31" "ReceivingWorker_Read w k = (w', d)"
  shows "received w' n = received w n \<and> r_nextNumber w \<le> r_nextNumber w'"
proof -
  obtain w1 mb where rd: "ReceivingWorker_ReadMultiBuffer w = (w1, mb)" by fastforce
  have "received w' n = received w1 n \<and> r_nextNumber w' = r_nextNumber w1"
    using assms(3) rd by (auto simp: ReceivingWorker_Read_def received_def split_beta split: if_splits)
  with received_ReadMultiBuffer [OF assms(1,2) rd] show ?thesis by simp
qed

text \<open>Every acknowledgement of a flush carries the receiver's next number and numbers from its list.\<close>

lemma AckList_Flush_loop_wr:
  "AckList_Flush_loop wr mss current rto ns ts nfs g = (nfs', g') \<Longrightarrow> \<forall>s \<in> set (g_out g). s \<in> range wr \<Longrightarrow>
    \<forall>s \<in> set (g_out g'). s \<in> range wr"
proof (induction wr mss current rto ns ts nfs g arbitrary: nfs' g' rule: AckList_Flush_loop.induct)
  case (1 wr mss current rto n ns t ts nf nfs g)
  show ?case
  proof (cases "nf > current")
    case True
    define g1 where "g1 = (if length (g_candidates g) < 128 then g\<lparr>g_candidates := g_candidates g @ [n]\<rparr> else g)"
    obtain nfs2 g2 where call: "AckList_Flush_loop wr mss current rto ns ts nfs g1 = (nfs2, g2)" by fastforce
    then have "g2 = g'" using "1.prems"(1) True by (simp flip: g1_def)
    moreover have "g_out g1 = g_out g" by (simp add: g1_def)
    ultimately show ?thesis
      using "1.IH"(1) [OF True g1_def call] "1.prems"(2) by simp
  next
    case False
    define seg where "seg = PutTimestamp (PutNumber (g_seg g) n) t"
    define g1 where "g1 = (if ack_IsFull seg then g\<lparr>g_out := g_out g @ [wr seg], g_seg := NewAckSegment (ack_limit mss), g_dirty := False\<rparr>
      else g\<lparr>g_seg := seg\<rparr>)"
    obtain nfs2 g2 where call: "AckList_Flush_loop wr mss current rto ns ts nfs g1 = (nfs2, g2)" by fastforce
    then have "g2 = g'" using "1.prems"(1) False by (simp add: Let_def flip: g1_def seg_def)
    moreover have "\<forall>s \<in> set (g_out g1). s \<in> range wr" using "1.prems"(2) by (simp add: g1_def)
    ultimately show ?thesis
      using "1.IH"(2) [OF False seg_def g1_def call] by simp
  qed
qed auto

lemma ReceivingWorker_Flush_acks:
  assumes "recv_inv f N w D" "ReceivingWorker_Flush conv rtc rto w now = (w', out)" "x \<in> set out"
  shows "a_ReceivingNext x = r_nextNumber w \<and> (\<forall>n \<in> set (a_NumberList x). received w n)"
proof -
  obtain l where fl: "AckList_Flush (ReceivingWorker_Write conv rtc w) (r_acklist w) now rto = (l, out)"
    using assms(2) by (cases "AckList_Flush (ReceivingWorker_Write conv rtc w) (r_acklist w) now rto")
      (simp add: ReceivingWorker_Flush_def)
  have par: "parallel (r_acklist w)" using assms(1) by (simp add: recv_inv_def)
  from AckList_Flush_spec [OF par _ _ fl] obtain k where
    "concat (map a_NumberList out) = due_numbers now (l_numbers (r_acklist w)) (l_nextFlush (r_acklist w)) @
       take k (waiting_numbers now (l_numbers (r_acklist w)) (l_nextFlush (r_acklist w)))"
    by (auto simp: ReceivingWorker_Write_def)
  moreover have "set (due_numbers c ns nf) \<subseteq> set ns" for c ns nf
    by (auto simp: due_numbers_def dest: set_zip_leftD)
  moreover have "set (waiting_numbers c ns nf) \<subseteq> set ns" for c ns nf
    by (auto simp: waiting_numbers_def dest: set_zip_leftD)
  then have "set (take k (waiting_numbers c ns nf)) \<subseteq> set ns" for c ns nf
    using set_take_subset by (rule subset_trans [rotated])
  ultimately have "set (concat (map a_NumberList out)) \<subseteq> set (l_numbers (r_acklist w))" by simp
  then have nums: "set (a_NumberList x) \<subseteq> set (l_numbers (r_acklist w))" using assms(3) by auto
  have "x \<in> range (ReceivingWorker_Write conv rtc w)"
  proof -
    obtain nfs g where lp: "AckList_Flush_loop (ReceivingWorker_Write conv rtc w) (l_mss (r_acklist w)) now rto
        (l_numbers (r_acklist w)) (l_timestamps (r_acklist w)) (l_nextFlush (r_acklist w))
        \<lparr>g_candidates = [], g_dirty = l_dirty (r_acklist w), g_seg = NewAckSegment (ack_limit (l_mss (r_acklist w))), g_out = []\<rparr> = (nfs, g)"
      by fastforce
    have "\<forall>s \<in> set (g_out g). s \<in> range (ReceivingWorker_Write conv rtc w)"
      using AckList_Flush_loop_wr [OF lp] by simp
    then show ?thesis
      using fl lp assms(3) by (auto simp: AckList_Flush_def Let_def split: if_splits)
  qed
  then have "a_ReceivingNext x = r_nextNumber w" by (auto simp: ReceivingWorker_Write_def)
  with nums assms(1) show ?thesis by (auto simp: recv_inv_def)
qed

section \<open>The invariant\<close>

definition holds_number :: "sending_worker \<Rightarrow> u32 \<Rightarrow> bool" where
  "holds_number w n \<longleftrightarrow> n \<in> fst ` set (held (cache (window w)))"

definition sender_stream :: "(nat \<Rightarrow> bytes) \<Rightarrow> sending_worker \<Rightarrow> bool" where
  "sender_stream f w \<longleftrightarrow> sender_inv w \<and> \<not> w_closed w \<and>
     (\<forall>(n, p) \<in> set (held (cache (window w))). p = f (unat n) \<and> n < nextNumber w)"

definition sys_inv :: "(nat \<Rightarrow> bytes) \<Rightarrow> kcp_system \<Rightarrow> bool" where
  "sys_inv f s \<longleftrightarrow> sender_stream f (snd_side s) \<and> recv_inv f (2 ^ 31) (rcv_side s) (delivered s) \<and>
     unat (r_windowSize (rcv_side s)) \<le> 2 ^ 31 \<and>
     (\<forall>x \<in> net_data s. of_stream f (unat (nextNumber (snd_side s))) x) \<and>
     (\<forall>x \<in> net_ack s. a_ReceivingNext x \<le> r_nextNumber (rcv_side s) \<and>
        (\<forall>n \<in> set (a_NumberList x). received (rcv_side s) n)) \<and>
     (\<forall>n \<in> net_next s. n \<le> r_nextNumber (rcv_side s)) \<and>
     (\<forall>n < nextNumber (snd_side s). holds_number (snd_side s) n \<or> received (rcv_side s) n) \<and>
     (\<forall>n. received (rcv_side s) n \<longrightarrow> n < nextNumber (snd_side s))"

text \<open>A sender's step: what is held afterwards is part of what was, less what the receiver has.\<close>

lemma sys_inv_sender:
  assumes "sys_inv f s" "sender_inv w" "\<not> w_closed w" "nextNumber w = nextNumber (snd_side s)"
    and "set (held (cache (window w))) \<subseteq> set (held (cache (window (snd_side s))))"
    and "\<And>n. holds_number (snd_side s) n \<Longrightarrow> holds_number w n \<or> received (rcv_side s) n"
  shows "sys_inv f (s\<lparr>snd_side := w\<rparr>)"
proof -
  have "sender_stream f w"
    using assms(1-5) by (auto simp: sys_inv_def sender_stream_def)
  moreover have "\<forall>n < nextNumber w. holds_number w n \<or> received (rcv_side s) n"
    using assms(1,4,6) unfolding sys_inv_def by metis
  ultimately show ?thesis
    using assms(1,4) by (simp add: sys_inv_def)
qed

text \<open>A receiver's step: it has what it had, and possibly a number the sender has used.\<close>

lemma sys_inv_receiver:
  assumes "sys_inv f s" "recv_inv f (2 ^ 31) w D" "r_windowSize w = r_windowSize (rcv_side s)"
    and "\<And>n. received (rcv_side s) n \<Longrightarrow> received w n" "r_nextNumber (rcv_side s) \<le> r_nextNumber w"
    and "\<And>n. received w n \<Longrightarrow> n < nextNumber (snd_side s)"
  shows "sys_inv f (s\<lparr>rcv_side := w, delivered := D\<rparr>)"
  using assms unfolding sys_inv_def by simp (meson order_trans)

lemma holds_filter:
  assumes "held (cache (window w')) = held (filter P (cache (window w)))" "holds_number w n"
    and "\<not> holds_number w' n"
  shows "\<exists>x. d_Number x = n \<and> \<not> P x"
proof -
  obtain y where y: "y \<in> set (cache (window w))" "d_Number y = n"
    using assms(2) by (auto simp: holds_number_def held_def)
  have "y \<notin> set (filter P (cache (window w)))"
  proof
    assume "y \<in> set (filter P (cache (window w)))"
    then have "(n, d_payload y) \<in> set (held (cache (window w')))"
      unfolding assms(1) using y(2) by (auto simp: held_def)
    with assms(3) show False by (force simp: holds_number_def)
  qed
  with y show ?thesis by auto
qed

lemma processAcks_closed: "w_closed (fst (processAcks w m r ns)) = w_closed w"
proof (induction ns arbitrary: w m r)
  case (Cons n ns)
  show ?case using Cons.IH processAck_frame(2) [of w n] by (simp add: split_beta Let_def)
qed simp

lemma ProcessSegment_not_closed:
  "\<not> w_closed w \<Longrightarrow> \<not> w_closed (fst (SendingWorker_ProcessSegment w now x rto))"
  by (simp add: SendingWorker_ProcessSegment_def Let_def split_beta processAcks_closed)

lemma sys_step_inv:
  assumes "sys_step f s s'" "sys_inv f s"
  shows "sys_inv f s'"
  using assms
proof (induction rule: sys_step.induct)
  case (sys_push s)
  let ?w = "snd_side s"
  let ?w' = "fst (SendingWorker_Push ?w (f (unat (nextNumber ?w))))"
  show ?case
  proof (cases "snd (SendingWorker_Push ?w (f (unat (nextNumber ?w))))")
    case False
    then have "?w' = ?w" by (auto simp: SendingWorker_Push_def split: if_splits)
    with sys_push show ?thesis by simp
  next
    case True
    have n: "unat (nextNumber ?w + 1) = unat (nextNumber ?w) + 1"
      using sys_push.hyps by (intro unat_Suc_no_wrap) simp
    then have lt: "m < nextNumber ?w + 1 \<longleftrightarrow> m < nextNumber ?w \<or> m = nextNumber ?w" for m
      by (auto simp: word_less_nat_alt less_Suc_eq word_unat_eq_iff)
    have w': "held (cache (window ?w')) = held (cache (window ?w)) @ [(nextNumber ?w, f (unat (nextNumber ?w)))]"
        "nextNumber ?w' = nextNumber ?w + 1" "w_closed ?w' = w_closed ?w"
      using True by (auto simp: SendingWorker_Push_def SendingWindow_Push_def split: if_splits)
    have inv: "sys_inv f s" by fact
    have "sender_inv ?w'"
      using inv sys_push.hyps by (intro sender_inv_Push) (simp_all add: sys_inv_def sender_stream_def)
    then have "sender_stream f ?w'"
      using inv by (auto simp: sys_inv_def sender_stream_def w' lt)
    moreover have "of_stream f (unat (nextNumber ?w')) x" if "of_stream f (unat (nextNumber ?w)) x" for x
      using that n by (auto simp: of_stream_def w')
    ultimately show ?thesis
      using inv by (auto simp: sys_inv_def holds_number_def w' lt)
  qed
next
  case (sys_flush_snd e s now w out upd)
  let ?w = "snd_side s"
  have inv: "sender_inv ?w" "\<not> w_closed ?w"
    and held: "\<forall>(n, p) \<in> set (held (cache (window ?w))). p = f (unat n) \<and> n < nextNumber ?w"
    using sys_flush_snd.prems by (simp_all add: sys_inv_def sender_stream_def)
  have w: "w = fst (SendingWorker_Flush e ?w now)" "out = fst (snd (SendingWorker_Flush e ?w now))"
    using sys_flush_snd.hyps by simp_all
  have heldw: "held (cache (window w)) = held (cache (window ?w))"
    unfolding w by (rule Flush_held)
  have len: "length (cache (window ?w)) < 2 ^ 32"
    using length_cache_bound [OF inv(1)] inv(1) by (simp add: sender_inv_def)
  have "of_stream f (unat (nextNumber ?w)) x" if xs: "x \<in> set out" for x
  proof -
    obtain y where y: "y \<in> set (cache (window ?w))" "x = sent (SendingWorker_Write e ?w) now (e_rto e) y"
    proof -
      assume y_that: "\<And>y. y \<in> set (cache (window ?w)) \<Longrightarrow> x = sent (SendingWorker_Write e ?w) now (e_rto e) y \<Longrightarrow> thesis"
      have "x \<in> sent (SendingWorker_Write e ?w) now (e_rto e) `
          set (take (max 1 (unat (cwnd e ?w))) (filter (due now) (cache (window ?w))))"
        using xs Flush_segments [OF len, of e now] inv(2) by (simp add: w)
      then obtain y where "y \<in> set (take (max 1 (unat (cwnd e ?w))) (filter (due now) (cache (window ?w))))"
          "x = sent (SendingWorker_Write e ?w) now (e_rto e) y" by blast
      moreover from this(1) have "y \<in> set (cache (window ?w))" using in_set_takeD by fastforce
      ultimately show thesis using y_that by blast
    qed
    have "d_Number x = d_Number y" "d_payload x = d_payload y"
      by (simp_all add: y(2) sent_def SendingWorker_Write_def)
    moreover have "(d_Number y, d_payload y) \<in> set (held (cache (window ?w)))"
      using y(1) by (simp add: held_def)
    ultimately show ?thesis using held by (auto simp: of_stream_def word_less_nat_alt)
  qed
  moreover have "sys_inv f (s\<lparr>snd_side := w\<rparr>)"
    using sys_flush_snd.prems inv heldw
    by (intro sys_inv_sender) (auto simp: w(1) sender_inv_Flush holds_number_def)
  ultimately show ?case
    using heldw by (auto simp: sys_inv_def w(1))
next
  case (sys_data x s)
  let ?w = "rcv_side s"
  have x: "of_stream f (unat (nextNumber (snd_side s))) x" and inv: "sys_inv f s"
    using sys_data by (auto simp: sys_inv_def)
  have "unat (nextNumber (snd_side s)) \<le> 2 ^ 31"
    using inv by (simp add: sys_inv_def sender_stream_def sender_inv_def)
  with x have x31: "of_stream f (2 ^ 31) x" by (auto simp: of_stream_def)
  have "recv_inv f (2 ^ 31) (ReceivingWorker_ProcessSegment ?w x) (delivered s)"
    using inv x31 by (intro recv_inv_ProcessSegment) (auto simp: sys_inv_def)
  moreover have "d_Number x < nextNumber (snd_side s)"
    using x by (simp add: of_stream_def word_less_nat_alt)
  ultimately have "sys_inv f (s\<lparr>rcv_side := ReceivingWorker_ProcessSegment ?w x, delivered := delivered s\<rparr>)"
    using inv received_ProcessSegment
    by (intro sys_inv_receiver) (auto simp: sys_inv_def dest: received_ProcessSegment(1))
  then show ?case by simp
next
  case (sys_flush_rcv conv rtc rto s now w out)
  have w: "w = fst (ReceivingWorker_Flush conv rtc rto (rcv_side s) now)"
    using sys_flush_rcv.hyps by simp
  have inv: "sys_inv f s" and r: "recv_inv f (2 ^ 31) (rcv_side s) (delivered s)"
    using sys_flush_rcv.prems by (simp_all add: sys_inv_def)
  have "sys_inv f (s\<lparr>rcv_side := w, delivered := delivered s\<rparr>)"
    using inv r by (intro sys_inv_receiver)
      (auto simp: w received_frame recv_inv_Flush sys_inv_def simp del: fst_conv)
  moreover have "a_ReceivingNext x \<le> r_nextNumber w \<and> (\<forall>n \<in> set (a_NumberList x). received w n)" if "x \<in> set out" for x
    using ReceivingWorker_Flush_acks [OF r sys_flush_rcv.hyps that] by (simp add: w received_frame)
  ultimately show ?case by (auto simp: sys_inv_def)
next
  case (sys_ack x s now rto)
  let ?w = "snd_side s" and ?w' = "fst (SendingWorker_ProcessSegment (snd_side s) now x rto)"
  have inv: "sys_inv f s" and w: "sender_inv ?w" "\<not> w_closed ?w"
    and x: "a_ReceivingNext x \<le> r_nextNumber (rcv_side s)" "\<forall>n \<in> set (a_NumberList x). received (rcv_side s) n"
    using sys_ack by (auto simp: sys_inv_def sender_stream_def)
  note held = ProcessSegment_cache [OF w, of now x rto]
  show ?case
  proof (rule sys_inv_sender [OF inv])
    show "sender_inv ?w'" using w(1) by (rule sender_inv_ProcessSegment)
    show "\<not> w_closed ?w'" using w(2) by (rule ProcessSegment_not_closed)
    show "set (held (cache (window ?w'))) \<subseteq> set (held (cache (window ?w)))"
      unfolding held by (auto simp: held_def)
    fix n assume n: "holds_number ?w n"
    show "holds_number ?w' n \<or> received (rcv_side s) n"
    proof (rule disjCI)
      assume "\<not> received (rcv_side s) n"
      with x(2) have "n \<notin> set (a_NumberList x)" "\<not> n < a_ReceivingNext x"
        using order.strict_trans2 [OF _ x(1), of n] by (auto simp: received_def)
      with holds_filter [OF held n] show "holds_number ?w' n" by (auto simp: not_less)
    qed
  qed simp
next
  case (sys_next n s)
  let ?w = "snd_side s" and ?w' = "ProcessReceivingNext (snd_side s) n"
  have inv: "sys_inv f s" and w: "sender_inv ?w" "\<not> w_closed ?w" and n: "n \<le> r_nextNumber (rcv_side s)"
    using sys_next by (auto simp: sys_inv_def sender_stream_def)
  have held: "held (cache (window ?w')) = held (filter (\<lambda>s. n \<le> d_Number s) (cache (window ?w)))"
    using ProcessReceivingNext_cache [OF w(1), of n] by simp
  show ?case
  proof (rule sys_inv_sender [OF inv])
    show "sender_inv ?w'" using w(1) by (rule sender_inv_ProcessReceivingNext)
    show "set (held (cache (window ?w'))) \<subseteq> set (held (cache (window ?w)))"
      unfolding held by (auto simp: held_def)
    fix k assume "holds_number ?w k"
    then show "holds_number ?w' k \<or> received (rcv_side s) k"
      using holds_filter [OF held, of k] n by (auto simp: received_def not_le)
  qed (use w in simp_all)
next
  case (sys_first n s)
  have inv: "sys_inv f s" and r: "recv_inv f (2 ^ 31) (rcv_side s) (delivered s)"
    using sys_first.prems by (simp_all add: sys_inv_def)
  have "sys_inv f (s\<lparr>rcv_side := ProcessSendingNext (rcv_side s) n, delivered := delivered s\<rparr>)"
    using inv r by (intro sys_inv_receiver) (auto simp: received_frame recv_inv_ProcessSendingNext sys_inv_def)
  then show ?case by simp
next
  case (sys_read s k w d)
  have inv: "sys_inv f s" and r: "recv_inv f (2 ^ 31) (rcv_side s) (delivered s)"
    using sys_read.prems by (simp_all add: sys_inv_def)
  note rd = received_Read [OF r order_refl sys_read.hyps]
  show ?case
    using recv_inv_Read [OF r order_refl, of k] sys_read.hyps inv rd
    by (intro sys_inv_receiver [OF inv]) (auto simp: sys_inv_def)
next
  case (sys_read_multi s w mb)
  have inv: "sys_inv f s" and r: "recv_inv f (2 ^ 31) (rcv_side s) (delivered s)"
    using sys_read_multi.prems by (simp_all add: sys_inv_def)
  note rd = received_ReadMultiBuffer [OF r order_refl sys_read_multi.hyps]
  show ?case
    using recv_inv_ReadMultiBuffer(1,3) [OF r order_refl sys_read_multi.hyps] inv rd
    by (intro sys_inv_receiver [OF inv]) (auto simp: sys_inv_def)
qed (auto simp: sys_inv_def)

lemma sys_inv_initial:
  "unat rcv_sz \<le> 2 ^ 31 \<Longrightarrow> sys_inv f (initial_system snd_sz buf_sz mss rcv_sz)"
  by (simp add: sys_inv_def initial_system_def sender_stream_def sender_inv_New recv_inv_New holds_number_def)
    (simp add: NewSendingWorker_def NewReceivingWorker_def NewSendingWindow_def received_def)

lemma sys_run_inv: "(sys_step f)\<^sup>*\<^sup>* s s' \<Longrightarrow> sys_inv f s \<Longrightarrow> sys_inv f s'"
  by (induction rule: rtranclp_induct) (auto intro: sys_step_inv)

section \<open>Properties\<close>

text \<open>C1: end to end, whatever the network loses, repeats, delays and reorders: what the reader got is a
  prefix of the stream that was written, and nothing was forgotten: every number the sender has used
  is still in its window or has reached the receiver, and the receiver has no other number.\<close>

theorem kcp_end_to_end:
  assumes "(sys_step f)\<^sup>*\<^sup>* (initial_system snd_sz buf_sz mss rcv_sz) s" "unat rcv_sz \<le> 2 ^ 31"
  shows "delivered s @ pending (rcv_side s) = concat (map f [0..<unat (r_nextNumber (rcv_side s))]) \<and>
     (\<forall>n. n < nextNumber (snd_side s) \<longleftrightarrow> holds_number (snd_side s) n \<or> received (rcv_side s) n)"
proof -
  have inv: "sys_inv f s"
    using sys_run_inv [OF assms(1) sys_inv_initial [OF assms(2)]] .
  moreover have "n < nextNumber (snd_side s)" if "holds_number (snd_side s) n" for n
    using inv that by (auto simp: sys_inv_def sender_stream_def holds_number_def)
  ultimately show ?thesis
    by (auto simp: sys_inv_def recv_inv_def)
qed

text \<open>C11: when everything the sender holds has been acknowledged, one read of a receiver that has nothing
  left over hands out the rest: the reader then has the whole stream written so far.\<close>

theorem kcp_drained_delivers_all:
  assumes "(sys_step f)\<^sup>*\<^sup>* (initial_system snd_sz buf_sz mss rcv_sz) s" "unat rcv_sz \<le> 2 ^ 31"
    and "SendingWindow_IsEmpty (window (snd_side s))" "r_leftOver (rcv_side s) = None"
    and "ReceivingWorker_ReadMultiBuffer (rcv_side s) = (w, mb)"
  shows "delivered s @ concat mb = concat (map f [0..<unat (nextNumber (snd_side s))])"
proof -
  have inv: "sys_inv f s"
    using sys_run_inv [OF assms(1) sys_inv_initial [OF assms(2)]] .
  then have r: "recv_inv f (2 ^ 31) (rcv_side s) (delivered s)" by (simp add: sys_inv_def)
  note R = recv_inv_ReadMultiBuffer [OF r order_refl assms(5)]
  have same: "received w n \<longleftrightarrow> n < nextNumber (snd_side s)" for n
    using inv assms(3) received_ReadMultiBuffer [OF r order_refl assms(5), of n]
    by (auto simp: sys_inv_def holds_number_def SendingWindow_IsEmpty_def)
  have "\<not> received w (r_nextNumber w)"
    using R(4) [OF assms(4)] by (simp add: received_def)
  with same have "nextNumber (snd_side s) \<le> r_nextNumber w" by (simp add: not_less)
  moreover have "r_nextNumber w \<le> nextNumber (snd_side s)"
  proof (rule ccontr)
    assume "\<not> r_nextNumber w \<le> nextNumber (snd_side s)"
    then have "received w (nextNumber (snd_side s))" by (simp add: received_def not_le)
    with same show False by simp
  qed
  ultimately have "r_nextNumber w = nextNumber (snd_side s)" by simp
  with R(1,2) show ?thesis by (simp add: recv_inv_def pending_def)
qed

text \<open>A run for the witnesses: one payload is written, sent, received and acknowledged.\<close>

definition demo_system :: kcp_system where
  "demo_system = initial_system 32 64 1350 32"

definition demo_env :: send_env where
  "demo_env = \<lparr>e_Conversation = 5, e_ReadyToClose = False, e_rto = 100, e_Congestion = False, e_InFlight = 32\<rparr>"

definition demo_pushed :: sending_worker where
  "demo_pushed = fst (SendingWorker_Push (NewSendingWorker 32 64) [7])"

definition demo_flushed :: "sending_worker \<times> data_segment list \<times> bool" where
  "demo_flushed = SendingWorker_Flush demo_env demo_pushed 1000"

definition demo_received :: receiving_worker where
  "demo_received = ReceivingWorker_ProcessSegment (NewReceivingWorker 1350 32) (hd (fst (snd demo_flushed)))"

definition demo_acks :: "receiving_worker \<times> ack_segment list" where
  "demo_acks = ReceivingWorker_Flush 5 False 100 demo_received 1000"

definition demo_acked :: sending_worker where
  "demo_acked = fst (SendingWorker_ProcessSegment (fst demo_flushed) 1000 (hd (snd demo_acks)) 100)"

lemmas demo_defs = demo_env_def demo_pushed_def demo_flushed_def demo_received_def demo_acks_def demo_acked_def

lemma demo_values:
  "fst (snd demo_flushed) \<noteq> []" "snd demo_acks \<noteq> []"
  "SendingWindow_IsEmpty (window demo_acked)" "nextNumber demo_acked = 1" "r_leftOver (fst demo_acks) = None"
  by code_simp+

definition demo_final :: kcp_system where
  "demo_final = demo_system\<lparr>snd_side := demo_acked, net_data := set (fst (snd demo_flushed)),
     rcv_side := fst demo_acks, net_ack := set (snd demo_acks)\<rparr>"

lemma demo_run: "(sys_step (\<lambda>_. [7]))\<^sup>*\<^sup>* demo_system demo_final"
proof -
  let ?f = "\<lambda>_. [7]"
  let ?s1 = "demo_system\<lparr>snd_side := demo_pushed\<rparr>"
  let ?s2 = "demo_system\<lparr>snd_side := fst demo_flushed, net_data := set (fst (snd demo_flushed))\<rparr>"
  let ?s3 = "?s2\<lparr>rcv_side := demo_received\<rparr>"
  let ?s4 = "?s2\<lparr>rcv_side := fst demo_acks, net_ack := set (snd demo_acks)\<rparr>"
  have init: "snd_side demo_system = NewSendingWorker 32 64" "rcv_side demo_system = NewReceivingWorker 1350 32"
      "net_data demo_system = {}" "net_ack demo_system = {}" "nextNumber (NewSendingWorker 32 64) = 0"
    by (simp_all add: demo_system_def initial_system_def NewSendingWorker_def)
  have "sys_step ?f demo_system ?s1"
    using sys_push [of demo_system ?f] by (simp add: init demo_pushed_def)
  moreover have "sys_step ?f ?s1 ?s2"
    using sys_flush_snd [of demo_env ?s1 1000 _ _ _ ?f] by (simp add: init demo_flushed_def prod_eq_iff)
  moreover have "sys_step ?f ?s2 ?s3"
    using sys_data [of "hd (fst (snd demo_flushed))" ?s2 ?f] demo_values(1) by (simp add: init demo_received_def)
  moreover have "sys_step ?f ?s3 ?s4"
    using sys_flush_rcv [of 5 False 100 ?s3 1000 _ _ ?f] by (simp add: init demo_acks_def prod_eq_iff)
  moreover have "demo_final = ?s4\<lparr>snd_side := demo_acked\<rparr>"
    by (rule kcp_system.equality) (simp_all add: demo_final_def)
  then have "sys_step ?f ?s4 demo_final"
    using sys_ack [of "hd (snd demo_acks)" ?s4 ?f 1000 100] demo_values(2) by (simp add: demo_acked_def)
  ultimately show ?thesis by (meson converse_rtranclp_into_rtranclp rtranclp.rtrancl_refl)
qed

theorem kcp_end_to_end_witness:
  "received (rcv_side demo_final) 0"
proof -
  have "(sys_step (\<lambda>_. [7]))\<^sup>*\<^sup>* (initial_system 32 64 1350 32) demo_final"
    using demo_run by (simp add: demo_system_def)
  from kcp_end_to_end [OF this]
  have "0 < nextNumber (snd_side demo_final) \<longleftrightarrow> holds_number (snd_side demo_final) 0 \<or> received (rcv_side demo_final) 0"
    by simp
  then show ?thesis
    using demo_values(3,4) by (simp add: demo_final_def holds_number_def SendingWindow_IsEmpty_def)
qed

theorem kcp_drained_delivers_all_witness:
  "concat (snd (ReceivingWorker_ReadMultiBuffer (rcv_side demo_final))) = [7]"
  using kcp_drained_delivers_all [of "\<lambda>_. [7]" 32 64 1350 32 demo_final, OF _ _ _ _ prod.collapse [symmetric]]
    demo_run demo_values(3-5)
  by (simp add: demo_system_def demo_final_def initial_system_def)

end
