(* ===== verification/Kcp_Connection.thy ===== *)
theory Kcp_Connection
  imports Kcp_Sending Kcp_Receiving
begin

text \<open>
  \<open>transport/internet/kcp/connection.go\<close> and \<open>config.go\<close>: the mKCP connection, a state machine over the
  two workers. One definition per handler, as it runs while no other handler is under way; the
  handlers take no lock around the state, and \<open>Kcp_Concurrent\<close> interleaves them. The clock is the
  environment: \<open>clk k\<close> is the value of the \<open>k\<close>-th call of \<open>Elapsed\<close>, and the connection counts its
  calls. Segments handed to \<open>conn.output\<close> are appended to \<open>k_out\<close> (the output's errors are ignored
  by every caller). A \<open>signal.Notifier\<close> is a flag, an \<open>Updater\<close> the phase of its one goroutine, and
  \<open>go c.Terminate()\<close> adds to the goroutines that are still to run. Blocking (waiting for input
  or for room) is a result of the handler; deadlines and logging are left out.
\<close>

section \<open>Configuration\<close>

record kcp_config =
  Mtu :: "u32 option"
  Tti :: "u32 option"
  UplinkCapacity :: "u32 option"
  DownlinkCapacity :: "u32 option"
  WriteBuffer :: "u32 option"
  Congestion :: bool

definition GetMTUValue :: "kcp_config \<Rightarrow> u32" where
  "GetMTUValue c = (case Mtu c of None \<Rightarrow> 1350 | Some v \<Rightarrow> v)"

definition GetTTIValue :: "kcp_config \<Rightarrow> u32" where
  "GetTTIValue c = (case Tti c of None \<Rightarrow> 50 | Some v \<Rightarrow> v)"

definition GetUplinkCapacityValue :: "kcp_config \<Rightarrow> u32" where
  "GetUplinkCapacityValue c = (case UplinkCapacity c of None \<Rightarrow> 5 | Some v \<Rightarrow> v)"

definition GetDownlinkCapacityValue :: "kcp_config \<Rightarrow> u32" where
  "GetDownlinkCapacityValue c = (case DownlinkCapacity c of None \<Rightarrow> 20 | Some v \<Rightarrow> v)"

definition GetWriteBufferSize :: "kcp_config \<Rightarrow> u32" where
  "GetWriteBufferSize c = (case WriteBuffer c of None \<Rightarrow> 2 * 1024 * 1024 | Some v \<Rightarrow> v)"

text \<open>\<open>capacity * 1024 * 1024 / mtu / (1000 / tti)\<close>, at least 8; \<open>None\<close> where Go divides by zero.\<close>

definition inflight_size :: "u32 \<Rightarrow> u32 \<Rightarrow> u32 \<Rightarrow> u32 option" where
  "inflight_size capacity mtu tti =
     (if mtu = 0 \<or> tti = 0 \<or> 1000 div tti = 0 then None
      else let sz = capacity * 1024 * 1024 div mtu div (1000 div tti)
           in Some (if sz < 8 then 8 else sz))"

definition GetSendingInFlightSize :: "kcp_config \<Rightarrow> u32 option" where
  "GetSendingInFlightSize c = inflight_size (GetUplinkCapacityValue c) (GetMTUValue c) (GetTTIValue c)"

definition GetReceivingInFlightSize :: "kcp_config \<Rightarrow> u32 option" where
  "GetReceivingInFlightSize c = inflight_size (GetDownlinkCapacityValue c) (GetMTUValue c) (GetTTIValue c)"

definition GetSendingBufferSize :: "kcp_config \<Rightarrow> u32 option" where
  "GetSendingBufferSize c =
     (if GetMTUValue c = 0 then None else Some (GetWriteBufferSize c div GetMTUValue c))"

section \<open>Round-trip times\<close>

record round_trip =
  variation :: u32
  srtt :: u32
  rto :: u32
  minRtt :: u32
  updatedTimestamp :: u32

definition UpdatePeerRTO :: "round_trip \<Rightarrow> u32 \<Rightarrow> u32 \<Rightarrow> round_trip" where
  "UpdatePeerRTO info r current =
     (if current - updatedTimestamp info < 3000 then info
      else info\<lparr>updatedTimestamp := current, rto := r\<rparr>)"

definition RoundTrip_Update :: "round_trip \<Rightarrow> u32 \<Rightarrow> u32 \<Rightarrow> round_trip" where
  "RoundTrip_Update info rtt current =
     (if rtt > 0x7FFFFFFF then info
      else
        let info =
              (if srtt info = 0 then info\<lparr>srtt := rtt, variation := rtt div 2\<rparr>
               else let delta = (if srtt info > rtt then srtt info - rtt else rtt - srtt info);
                        info = info\<lparr>variation := (3 * variation info + delta) div 4\<rparr>;
                        info = info\<lparr>srtt := (7 * srtt info + rtt) div 8\<rparr>
                    in if srtt info < minRtt info then info\<lparr>srtt := minRtt info\<rparr> else info);
            r = (if minRtt info < 4 * variation info then srtt info + 4 * variation info
                 else srtt info + variation info);
            r = (if r > 10000 then 10000 else r)
        in info\<lparr>rto := r * 5 div 4, updatedTimestamp := current\<rparr>)"

section \<open>The connection\<close>

datatype kcp_state =
  StateActive | StateReadyToClose | StatePeerClosed | StateTerminating | StatePeerTerminating | StateTerminated

text \<open>The phase of an updater's goroutine: not running, started, in its loop.\<close>

datatype updater_phase = UIdle | UStarted | ULoop

record updater =
  u_interval :: u32
  u_phase :: updater_phase

definition Updater_WakeUp :: "updater \<Rightarrow> updater" where
  "Updater_WakeUp u = (if u_phase u = UIdle then u\<lparr>u_phase := UStarted\<rparr> else u)"

record connection =
  k_Conversation :: u16
  k_config :: kcp_config
  k_inFlight :: u32
  k_state :: kcp_state
  k_stateBeginTime :: u32
  k_lastIncomingTime :: u32
  k_lastPingTime :: u32
  k_mss :: u32
  k_roundTrip :: round_trip
  k_recv :: receiving_worker
  k_send :: sending_worker
  k_out :: "segment list"
  k_dataInput :: bool
  k_dataOutput :: bool
  k_dataUpdater :: updater
  k_pingUpdater :: updater
  k_terminate :: nat
  k_closerClosed :: bool
  k_ticks :: nat

definition NewConnection :: "u16 \<Rightarrow> kcp_config \<Rightarrow> connection option" where
  "NewConnection conv cfg =
     (case (GetSendingInFlightSize cfg, GetReceivingInFlightSize cfg, GetSendingBufferSize cfg) of
        (Some snd_sz, Some rcv_sz, Some buf_sz) \<Rightarrow>
          let mss = GetMTUValue cfg - DataSegmentOverhead in
          Some \<lparr>k_Conversation = conv, k_config = cfg, k_inFlight = snd_sz,
            k_state = StateActive, k_stateBeginTime = 0, k_lastIncomingTime = 0, k_lastPingTime = 0,
            k_mss = mss,
            k_roundTrip = \<lparr>variation = 0, srtt = 0, rto = 100, minRtt = GetTTIValue cfg, updatedTimestamp = 0\<rparr>,
            k_recv = NewReceivingWorker mss rcv_sz,
            k_send = NewSendingWorker snd_sz buf_sz,
            k_out = [], k_dataInput = False, k_dataOutput = False,
            k_dataUpdater = \<lparr>u_interval = GetTTIValue cfg, u_phase = UIdle\<rparr>,
            k_pingUpdater = Updater_WakeUp \<lparr>u_interval = 5000, u_phase = UIdle\<rparr>,
            k_terminate = 0, k_closerClosed = False, k_ticks = 0\<rparr>
      | _ \<Rightarrow> None)"

definition Elapsed :: "(nat \<Rightarrow> u32) \<Rightarrow> connection \<Rightarrow> u32 \<times> connection" where
  "Elapsed clk c = (clk (k_ticks c), c\<lparr>k_ticks := Suc (k_ticks c)\<rparr>)"

definition conn_env :: "connection \<Rightarrow> send_env" where
  "conn_env c = \<lparr>e_Conversation = k_Conversation c, e_ReadyToClose = (k_state c = StateReadyToClose),
     e_rto = rto (k_roundTrip c), e_Congestion = Congestion (k_config c), e_InFlight = k_inFlight c\<rparr>"

definition SetState :: "(nat \<Rightarrow> u32) \<Rightarrow> kcp_state \<Rightarrow> connection \<Rightarrow> connection" where
  "SetState clk st c =
     (let (current, c) = Elapsed clk c;
          c = c\<lparr>k_state := st, k_stateBeginTime := current\<rparr>;
          slow = (k_pingUpdater c)\<lparr>u_interval := 1000\<rparr>
      in case st of
           StateActive \<Rightarrow> c
         | StateReadyToClose \<Rightarrow> c
         | StatePeerClosed \<Rightarrow> c\<lparr>k_send := CloseWrite (k_send c)\<rparr>
         | StateTerminating \<Rightarrow> c\<lparr>k_send := CloseWrite (k_send c), k_pingUpdater := slow\<rparr>
         | StatePeerTerminating \<Rightarrow> c\<lparr>k_send := CloseWrite (k_send c), k_pingUpdater := slow\<rparr>
         | StateTerminated \<Rightarrow>
             c\<lparr>k_send := CloseWrite (k_send c), k_pingUpdater := Updater_WakeUp slow,
               k_dataUpdater := Updater_WakeUp (k_dataUpdater c), k_terminate := Suc (k_terminate c)\<rparr>)"

text \<open>\<open>True\<close> when the connection was open: otherwise the caller gets \<open>ErrClosedConnection\<close>.\<close>

definition Close :: "(nat \<Rightarrow> u32) \<Rightarrow> connection \<Rightarrow> connection \<times> bool" where
  "Close clk c =
     (let c = c\<lparr>k_dataInput := True, k_dataOutput := True\<rparr>
      in case k_state c of
           StateReadyToClose \<Rightarrow> (c, False)
         | StateTerminating \<Rightarrow> (c, False)
         | StateTerminated \<Rightarrow> (c, False)
         | StateActive \<Rightarrow> (SetState clk StateReadyToClose c, True)
         | StatePeerClosed \<Rightarrow> (SetState clk StateTerminating c, True)
         | StatePeerTerminating \<Rightarrow> (SetState clk StateTerminated c, True))"

definition Terminate :: "connection \<Rightarrow> connection" where
  "Terminate c =
     c\<lparr>k_dataInput := True, k_dataOutput := True, k_closerClosed := True,
       k_send := SendingWorker_Release (k_send c), k_recv := ReceivingWorker_Release (k_recv c)\<rparr>"

definition OnPeerClosed :: "(nat \<Rightarrow> u32) \<Rightarrow> connection \<Rightarrow> connection" where
  "OnPeerClosed clk c =
     (case k_state c of
        StateReadyToClose \<Rightarrow> SetState clk StateTerminating c
      | StateActive \<Rightarrow> SetState clk StatePeerClosed c
      | _ \<Rightarrow> c)"

definition HandleOption :: "(nat \<Rightarrow> u32) \<Rightarrow> byte \<Rightarrow> connection \<Rightarrow> connection" where
  "HandleOption clk opt c =
     (if opt AND SegmentOptionClose = SegmentOptionClose then OnPeerClosed clk c else c)"

definition Ping :: "u32 \<Rightarrow> command \<Rightarrow> connection \<Rightarrow> connection" where
  "Ping current cmd c =
     (let seg = NewCmdOnlySegment\<lparr>c_Conv := k_Conversation c, c_Cmd := cmd,
                  c_ReceivingNext := r_nextNumber (k_recv c),
                  c_SendingNext := firstUnacknowledged (k_send c),
                  c_PeerRTO := rto (k_roundTrip c),
                  c_Option := (if k_state c = StateReadyToClose then SegmentOptionClose else 0)\<rparr>
      in c\<lparr>k_out := k_out c @ [CmdOnly seg], k_lastPingTime := current\<rparr>)"

definition wake_data :: "connection \<Rightarrow> connection" where
  "wake_data c = c\<lparr>k_dataUpdater := Updater_WakeUp (k_dataUpdater c)\<rparr>"

subsection \<open>Input\<close>

definition Input_data :: "(nat \<Rightarrow> u32) \<Rightarrow> data_segment \<Rightarrow> connection \<Rightarrow> connection" where
  "Input_data clk seg c =
     (let c = HandleOption clk (d_Option seg) c;
          c = c\<lparr>k_recv := ReceivingWorker_ProcessSegment (k_recv c) seg\<rparr>;
          c = (if IsDataAvailable (k_recv c) then c\<lparr>k_dataInput := True\<rparr> else c)
      in wake_data c)"

definition Input_ack :: "(nat \<Rightarrow> u32) \<Rightarrow> u32 \<Rightarrow> ack_segment \<Rightarrow> connection \<Rightarrow> connection" where
  "Input_ack clk current seg c =
     (let c = HandleOption clk (a_Option seg) c;
          (w, upd) = SendingWorker_ProcessSegment (k_send c) current seg (rto (k_roundTrip c));
          c = c\<lparr>k_send := w, k_dataOutput := True,
                k_roundTrip := (case upd of None \<Rightarrow> k_roundTrip c
                                | Some (rtt, now) \<Rightarrow> RoundTrip_Update (k_roundTrip c) rtt now)\<rparr>
      in wake_data c)"

definition Input_cmd :: "(nat \<Rightarrow> u32) \<Rightarrow> u32 \<Rightarrow> cmd_segment \<Rightarrow> connection \<Rightarrow> connection" where
  "Input_cmd clk current seg c =
     (let c = HandleOption clk (c_Option seg) c;
          c = (if c_Cmd seg = CommandTerminate
               then case k_state c of
                      StateActive \<Rightarrow> SetState clk StatePeerTerminating c
                    | StatePeerClosed \<Rightarrow> SetState clk StatePeerTerminating c
                    | StateReadyToClose \<Rightarrow> SetState clk StateTerminating c
                    | StateTerminating \<Rightarrow> SetState clk StateTerminated c
                    | _ \<Rightarrow> c
               else c);
          c = (if c_Option seg = SegmentOptionClose \<or> c_Cmd seg = CommandTerminate
               then c\<lparr>k_dataInput := True, k_dataOutput := True\<rparr> else c)
      in c\<lparr>k_send := ProcessReceivingNext (k_send c) (c_ReceivingNext seg),
           k_recv := ProcessSendingNext (k_recv c) (c_SendingNext seg),
           k_roundTrip := UpdatePeerRTO (k_roundTrip c) (c_PeerRTO seg) current\<rparr>)"

fun Input_segment :: "(nat \<Rightarrow> u32) \<Rightarrow> u32 \<Rightarrow> segment \<Rightarrow> connection \<Rightarrow> connection" where
  "Input_segment clk current (Data seg) c = Input_data clk seg c"
| "Input_segment clk current (Ack seg) c = Input_ack clk current seg c"
| "Input_segment clk current (CmdOnly seg) c = Input_cmd clk current seg c"

fun Input_loop :: "(nat \<Rightarrow> u32) \<Rightarrow> u32 \<Rightarrow> segment list \<Rightarrow> connection \<Rightarrow> connection" where
  "Input_loop clk current [] c = c"
| "Input_loop clk current (seg # segs) c =
     (if Conversation seg \<noteq> k_Conversation c then c
      else Input_loop clk current segs (Input_segment clk current seg c))"

definition Input :: "(nat \<Rightarrow> u32) \<Rightarrow> segment list \<Rightarrow> connection \<Rightarrow> connection" where
  "Input clk segments c =
     (let (current, c) = Elapsed clk c
      in Input_loop clk current segments (c\<lparr>k_lastIncomingTime := current\<rparr>))"

subsection \<open>Flush\<close>

definition flush_recv :: "u32 \<Rightarrow> connection \<Rightarrow> connection" where
  "flush_recv current c =
     (let (w, out) = ReceivingWorker_Flush (k_Conversation c) (k_state c = StateReadyToClose)
                       (rto (k_roundTrip c)) (k_recv c) current
      in c\<lparr>k_recv := w, k_out := k_out c @ map Ack out\<rparr>)"

definition flush_send :: "u32 \<Rightarrow> connection \<Rightarrow> connection" where
  "flush_send current c =
     (let (w, out, updated) = SendingWorker_Flush (conn_env c) (k_send c) current;
          c = c\<lparr>k_send := w, k_out := k_out c @ map Data out\<rparr>
      in if updated then Ping current CommandPing c else c)"

definition flush_conn :: "(nat \<Rightarrow> u32) \<Rightarrow> connection \<Rightarrow> connection" where
  "flush_conn clk c =
     (let (current, c) = Elapsed clk c in
      if k_state c = StateTerminated then c
      else
        let c = (if k_state c = StateActive \<and> current - k_lastIncomingTime c \<ge> 30000
                 then fst (Close clk c) else c);
            c = (if k_state c = StateReadyToClose \<and> SendingWindow_IsEmpty (window (k_send c))
                 then SetState clk StateTerminating c else c)
        in if k_state c = StateTerminating
           then let c = Ping current CommandTerminate c
                in if current - k_stateBeginTime c > 8000 then SetState clk StateTerminated c else c
           else
             let c = (if k_state c = StatePeerTerminating \<and> current - k_stateBeginTime c > 4000
                      then SetState clk StateTerminating c else c);
                 c = (if k_state c = StateReadyToClose \<and> current - k_stateBeginTime c > 15000
                      then SetState clk StateTerminating c else c);
                 c = flush_send current (flush_recv current c)
             in if current - k_lastPingTime c \<ge> 3000 then Ping current CommandPing c else c)"

subsection \<open>Updaters\<close>

definition isTerminating :: "connection \<Rightarrow> bool" where
  "isTerminating c = (k_state c = StateTerminating \<or> k_state c = StateTerminated)"

text \<open>One move of the data updater's goroutine, then of the ping updater's.\<close>

definition dataUpdater_run :: "(nat \<Rightarrow> u32) \<Rightarrow> connection \<Rightarrow> connection" where
  "dataUpdater_run clk c =
     (let set = (\<lambda>p c. c\<lparr>k_dataUpdater := (k_dataUpdater c)\<lparr>u_phase := p\<rparr>\<rparr>)
      in case u_phase (k_dataUpdater c) of
           UIdle \<Rightarrow> c
         | UStarted \<Rightarrow> set (if isTerminating c then UIdle else ULoop) c
         | ULoop \<Rightarrow>
             if \<not> isTerminating c \<and>
                (SendingWorker_UpdateNecessary (k_send c) \<or> ReceivingWorker_UpdateNecessary (k_recv c))
             then flush_conn clk c else set UIdle c)"

definition pingUpdater_run :: "(nat \<Rightarrow> u32) \<Rightarrow> connection \<Rightarrow> connection" where
  "pingUpdater_run clk c =
     (let set = (\<lambda>p c. c\<lparr>k_pingUpdater := (k_pingUpdater c)\<lparr>u_phase := p\<rparr>\<rparr>)
      in case u_phase (k_pingUpdater c) of
           UIdle \<Rightarrow> c
         | UStarted \<Rightarrow> set (if k_state c = StateTerminated then UIdle else ULoop) c
         | ULoop \<Rightarrow> if k_state c \<noteq> StateTerminated then flush_conn clk c else set UIdle c)"

subsection \<open>Reading and writing\<close>

datatype 'a io_result = IoEOF | IoClosedPipe | IoDone 'a | IoWait

definition Connection_ReadMultiBuffer :: "connection \<Rightarrow> connection \<times> bytes list io_result" where
  "Connection_ReadMultiBuffer c =
     (if k_state c \<in> {StateReadyToClose, StateTerminating, StateTerminated} then (c, IoEOF)
      else let (w, mb) = ReceivingWorker_ReadMultiBuffer (k_recv c); c = c\<lparr>k_recv := w\<rparr>
           in if concat mb \<noteq> [] then (wake_data c, IoDone mb)
              else if k_state c = StatePeerTerminating then (c, IoEOF) else (c, IoWait))"

definition Connection_Read :: "connection \<Rightarrow> nat \<Rightarrow> connection \<times> bytes io_result" where
  "Connection_Read c n =
     (if k_state c \<in> {StateReadyToClose, StateTerminating, StateTerminated} then (c, IoEOF)
      else let (w, d) = ReceivingWorker_Read (k_recv c) n; c = c\<lparr>k_recv := w\<rparr>
           in if d \<noteq> [] then (wake_data c, IoDone d) else (c, IoWait))"

text \<open>
  The inner loop of \<open>writeMultiBufferInternal\<close>: \<open>b\<close> is the buffer read but not yet pushed, \<open>rd\<close>
  what the reader still holds. \<open>IoWait\<close> is the wait for room, resumed with the buffer and the
  reader that are returned. The last component tells whether an update is pending.
\<close>

function write_loop :: "connection \<Rightarrow> bytes option \<Rightarrow> bytes \<Rightarrow> bool \<Rightarrow>
    connection \<times> bytes option \<times> bytes \<times> unit io_result \<times> bool" where
  "write_loop c b rd upd =
     (if k_state c \<noteq> StateActive then (c, b, rd, IoClosedPipe, upd)
      else
        case b of
          None \<Rightarrow>
            let chunk = take (min (unat (k_mss c)) buf_Size) rd
            in if chunk = [] then (c, None, rd, IoDone (), upd)
               else let (w, ok) = SendingWorker_Push (k_send c) chunk
                    in if \<not> ok then (c, Some chunk, drop (length chunk) rd, IoWait, upd)
                       else write_loop (c\<lparr>k_send := w\<rparr>) None (drop (length chunk) rd) True
        | Some chunk \<Rightarrow>
            let (w, ok) = SendingWorker_Push (k_send c) chunk
            in if \<not> ok then (c, Some chunk, rd, IoWait, upd)
               else write_loop (c\<lparr>k_send := w\<rparr>) None rd True)"
  by pat_completeness auto
termination
  by (relation "measure (\<lambda>(c, b, rd, upd). length rd + (case b of None \<Rightarrow> 0 | Some _ \<Rightarrow> 1))") auto

declare write_loop.simps [simp del]

definition Connection_Write :: "connection \<Rightarrow> bytes option \<Rightarrow> bytes \<Rightarrow>
    connection \<times> bytes option \<times> bytes \<times> unit io_result" where
  "Connection_Write c b rd =
     (let (c, b, rd, r, upd) = write_loop c b rd False
      in (if upd then wake_data c else c, b, rd, r))"

section \<open>The steps of a connection\<close>

text \<open>The handlers one after the other, each of them run to its end.\<close>

inductive kcp_step :: "(nat \<Rightarrow> u32) \<Rightarrow> connection \<Rightarrow> connection \<Rightarrow> bool" for clk where
  step_input: "kcp_step clk c (Input clk segs c)"
| step_data_update: "kcp_step clk c (dataUpdater_run clk c)"
| step_ping_update: "kcp_step clk c (pingUpdater_run clk c)"
| step_close: "kcp_step clk c (fst (Close clk c))"
| step_terminate: "k_terminate c = Suc n \<Longrightarrow> kcp_step clk c (Terminate (c\<lparr>k_terminate := n\<rparr>))"
| step_read: "kcp_step clk c (fst (Connection_Read c n))"
| step_read_multi: "kcp_step clk c (fst (Connection_ReadMultiBuffer c))"
| step_write: "kcp_step clk c (fst (Connection_Write c b rd))"
| step_take_input: "kcp_step clk c (c\<lparr>k_dataInput := False\<rparr>)"
| step_take_output: "kcp_step clk c (c\<lparr>k_dataOutput := False\<rparr>)"

text \<open>The state graph.\<close>

fun kcp_edge :: "kcp_state \<Rightarrow> kcp_state \<Rightarrow> bool" where
  "kcp_edge StateActive t = (t \<in> {StateReadyToClose, StatePeerClosed, StatePeerTerminating})"
| "kcp_edge StateReadyToClose t = (t = StateTerminating)"
| "kcp_edge StatePeerClosed t = (t \<in> {StateTerminating, StatePeerTerminating})"
| "kcp_edge StatePeerTerminating t = (t \<in> {StateTerminating, StateTerminated})"
| "kcp_edge StateTerminating t = (t = StateTerminated)"
| "kcp_edge StateTerminated t = False"

fun kcp_rank :: "kcp_state \<Rightarrow> nat" where
  "kcp_rank StateActive = 0"
| "kcp_rank StateReadyToClose = 1"
| "kcp_rank StatePeerClosed = 1"
| "kcp_rank StatePeerTerminating = 2"
| "kcp_rank StateTerminating = 3"
| "kcp_rank StateTerminated = 4"

abbreviation kcp_path :: "kcp_state \<Rightarrow> kcp_state \<Rightarrow> bool" where
  "kcp_path \<equiv> kcp_edge\<^sup>*\<^sup>*"

lemma kcp_path_edge: "kcp_edge a b \<Longrightarrow> kcp_path a b"
  by (rule r_into_rtranclp)

subsection \<open>What the handlers do to the state\<close>

lemma k_state_SetState [simp, state_simps]: "k_state (SetState clk st c) = st"
  by (cases st) (simp_all add: SetState_def Elapsed_def Let_def)

lemma SetState_frame [simp]:
  "k_recv (SetState clk st c) = k_recv c" "k_out (SetState clk st c) = k_out c"
  "k_Conversation (SetState clk st c) = k_Conversation c"
  "k_lastIncomingTime (SetState clk st c) = k_lastIncomingTime c"
  "k_lastPingTime (SetState clk st c) = k_lastPingTime c"
  "k_roundTrip (SetState clk st c) = k_roundTrip c"
  "k_ticks (SetState clk st c) = Suc (k_ticks c)"
  "k_stateBeginTime (SetState clk st c) = clk (k_ticks c)"
  "k_mss (SetState clk st c) = k_mss c"
  by (cases st; simp add: SetState_def Elapsed_def Let_def)+

lemma k_send_SetState:
  "k_send (SetState clk st c) =
     (if st \<in> {StateActive, StateReadyToClose} then k_send c else CloseWrite (k_send c))"
  by (cases st) (simp_all add: SetState_def Elapsed_def Let_def)

lemma k_state_Ping [simp, state_simps]: "k_state (Ping t cmd c) = k_state c"
  by (simp add: Ping_def Let_def)

lemma Ping_frame [simp]:
  "k_send (Ping t cmd c) = k_send c" "k_recv (Ping t cmd c) = k_recv c"
  "k_ticks (Ping t cmd c) = k_ticks c" "k_stateBeginTime (Ping t cmd c) = k_stateBeginTime c"
  "k_lastPingTime (Ping t cmd c) = t"
  by (simp_all add: Ping_def Let_def)

lemma k_state_wake_data [simp, state_simps]: "k_state (wake_data c) = k_state c"
  by (simp add: wake_data_def)

lemma k_state_flush_recv [simp, state_simps]: "k_state (flush_recv t c) = k_state c"
  by (simp add: flush_recv_def split_beta Let_def)

lemma k_state_flush_send [simp, state_simps]: "k_state (flush_send t c) = k_state c"
  by (simp add: flush_send_def split_beta Let_def)

lemma path_Close: "kcp_path (k_state c) (k_state (fst (Close clk c)))"
  by (cases "k_state c") (auto simp: Close_def Let_def intro: kcp_path_edge)

lemma path_HandleOption: "kcp_path (k_state c) (k_state (HandleOption clk opt c))"
  by (cases "k_state c") (auto simp: HandleOption_def OnPeerClosed_def intro: kcp_path_edge)

lemma path_Input_segment: "kcp_path (k_state c) (k_state (Input_segment clk t seg c))"
proof (cases seg)
  case (Data s)
  have "k_state (Input_segment clk t seg c) = k_state (HandleOption clk (d_Option s) c)"
    using Data by (simp add: Input_data_def Let_def)
  then show ?thesis by (simp add: path_HandleOption)
next
  case (Ack s)
  have "k_state (Input_segment clk t seg c) = k_state (HandleOption clk (a_Option s) c)"
    using Ack by (simp add: Input_ack_def Let_def split_beta)
  then show ?thesis by (simp add: path_HandleOption)
next
  case (CmdOnly s)
  have "kcp_path (k_state (HandleOption clk (c_Option s) c)) (k_state (Input_segment clk t seg c))"
    using CmdOnly
    by (cases "k_state (HandleOption clk (c_Option s) c)")
      (auto simp: Input_cmd_def Let_def intro: kcp_path_edge)
  then show ?thesis
    using path_HandleOption rtranclp_trans by fastforce
qed

lemma path_Input_loop: "kcp_path (k_state c) (k_state (Input_loop clk t segs c))"
proof (induction segs arbitrary: c)
  case (Cons seg segs)
  then show ?case
    using path_Input_segment [of c clk t seg] by (auto intro: rtranclp_trans)
qed simp

lemma path_Input: "kcp_path (k_state c) (k_state (Input clk segs c))"
  using path_Input_loop [of "c\<lparr>k_ticks := Suc (k_ticks c), k_lastIncomingTime := clk (k_ticks c)\<rparr>"]
  by (simp add: Input_def Elapsed_def)

text \<open>The three stages of a flush, named for the proofs.\<close>

definition flush_idle :: "(nat \<Rightarrow> u32) \<Rightarrow> u32 \<Rightarrow> connection \<Rightarrow> connection" where
  "flush_idle clk current c =
     (let c = (if k_state c = StateActive \<and> current - k_lastIncomingTime c \<ge> 30000
               then fst (Close clk c) else c)
      in if k_state c = StateReadyToClose \<and> SendingWindow_IsEmpty (window (k_send c))
         then SetState clk StateTerminating c else c)"

definition flush_late :: "(nat \<Rightarrow> u32) \<Rightarrow> u32 \<Rightarrow> connection \<Rightarrow> connection" where
  "flush_late clk current c =
     (let c = (if k_state c = StatePeerTerminating \<and> current - k_stateBeginTime c > 4000
               then SetState clk StateTerminating c else c)
      in if k_state c = StateReadyToClose \<and> current - k_stateBeginTime c > 15000
         then SetState clk StateTerminating c else c)"

lemma flush_conn_stages:
  "flush_conn clk c =
     (let t = clk (k_ticks c); c = c\<lparr>k_ticks := Suc (k_ticks c)\<rparr> in
      if k_state c = StateTerminated then c
      else let c = flush_idle clk t c in
        if k_state c = StateTerminating
        then let c = Ping t CommandTerminate c
             in if t - k_stateBeginTime c > 8000 then SetState clk StateTerminated c else c
        else let c = flush_send t (flush_recv t (flush_late clk t c))
             in if t - k_lastPingTime c \<ge> 3000 then Ping t CommandPing c else c)"
  by (simp add: flush_conn_def Elapsed_def flush_idle_def flush_late_def Let_def)

lemma path_flush_idle: "kcp_path (k_state c) (k_state (flush_idle clk t c))"
proof -
  have "kcp_path (k_state d) (k_state (if k_state d = StateReadyToClose \<and> P
      then SetState clk StateTerminating d else d))" for d P
    by (auto intro: kcp_path_edge)
  moreover have "kcp_path (k_state c) (k_state (if b then fst (Close clk c) else c))" for b
    by (simp add: path_Close)
  ultimately show ?thesis
    unfolding flush_idle_def Let_def by (meson rtranclp_trans)
qed

lemma path_flush_late: "kcp_path (k_state c) (k_state (flush_late clk t c))"
  by (cases "k_state c") (auto simp: flush_late_def Let_def intro: kcp_path_edge)

lemma path_flush_conn: "kcp_path (k_state c) (k_state (flush_conn clk c))"
proof -
  let ?c = "c\<lparr>k_ticks := Suc (k_ticks c)\<rparr>"
  have s: "k_state ?c = k_state c" by simp
  show ?thesis
    using path_flush_idle [of ?c clk "clk (k_ticks c)"]
      path_flush_late [of "flush_idle clk (clk (k_ticks c)) ?c" clk "clk (k_ticks c)"]
    by (auto simp: flush_conn_stages Let_def intro: kcp_path_edge rtranclp_trans
        rtranclp.rtrancl_into_rtrancl)
qed

lemma k_state_write_loop [simp]: "k_state (fst (write_loop c b rd upd)) = k_state c"
proof (induction c b rd upd rule: write_loop.induct)
  case (1 c b rd upd)
  then show ?case
    by (subst write_loop.simps) (auto simp: Let_def split: option.split prod.split)
qed

lemma path_step: "kcp_step clk c c' \<Longrightarrow> kcp_path (k_state c) (k_state c')"
proof (induction rule: kcp_step.induct)
  case (step_data_update c)
  then show ?case
    by (auto simp: dataUpdater_run_def Let_def path_flush_conn split: updater_phase.split)
next
  case (step_ping_update c)
  then show ?case
    by (auto simp: pingUpdater_run_def Let_def path_flush_conn split: updater_phase.split)
qed (simp_all add: path_Input path_Close Terminate_def Connection_Read_def
    Connection_ReadMultiBuffer_def Connection_Write_def Let_def split_beta)

interpretation kcp_machine: ranked_machine "kcp_step clk" k_state kcp_edge kcp_rank
proof
  show "kcp_path (k_state s) (k_state t)" if "kcp_step clk s t" for s t
    using that by (rule path_step)
  show "kcp_rank a < kcp_rank b" if "kcp_edge a b" for a b
    using that by (cases a) auto
qed


subsection \<open>Single flushes\<close>

lemma k_state_flush_idle:
  "k_state (flush_idle clk t c) =
     (if k_state c = StateActive \<and> t - k_lastIncomingTime c \<ge> 30000
      then (if SendingWindow_IsEmpty (window (k_send c)) then StateTerminating else StateReadyToClose)
      else if k_state c = StateReadyToClose \<and> SendingWindow_IsEmpty (window (k_send c))
      then StateTerminating else k_state c)"
  by (simp add: flush_idle_def Close_def Let_def k_send_SetState)

text \<open>A flush that reads the clock once: it finds the connection neither idle nor drained.\<close>

lemma flush_idle_id:
  assumes "\<not> (k_state c = StateActive \<and> t - k_lastIncomingTime c \<ge> 30000)"
    and "\<not> (k_state c = StateReadyToClose \<and> SendingWindow_IsEmpty (window (k_send c)))"
  shows "flush_idle clk t c = c"
  unfolding flush_idle_def Let_def if_not_P [OF assms(1)] if_not_P [OF assms(2)] by (rule refl)

lemma k_state_flush_late:
  "k_state (flush_late clk t c) =
     (if k_state c = StatePeerTerminating \<and> t - k_stateBeginTime c > 4000 then StateTerminating
      else if k_state c = StateReadyToClose \<and> t - k_stateBeginTime c > 15000 then StateTerminating
      else k_state c)"
  by (simp add: flush_late_def Let_def)

lemma k_state_flush:
  "k_state (flush_conn clk c) =
     (let t = clk (k_ticks c); d = flush_idle clk t (c\<lparr>k_ticks := Suc (k_ticks c)\<rparr>)
      in if k_state c = StateTerminated then StateTerminated
         else if k_state d = StateTerminating
         then (if t - k_stateBeginTime d > 8000 then StateTerminated else StateTerminating)
         else k_state (flush_late clk t d))"
  by (simp add: flush_conn_stages Let_def)

text \<open>What the writer's loop leaves: \<open>opt_bytes\<close> reads the buffer that is still in hand.\<close>

definition opt_bytes :: "bytes option \<Rightarrow> bytes" where
  "opt_bytes b = (case b of None \<Rightarrow> [] | Some x \<Rightarrow> x)"

lemma opt_bytes_simps [simp]: "opt_bytes None = []" "opt_bytes (Some x) = x"
  by (simp_all add: opt_bytes_def)

definition payloads :: "connection \<Rightarrow> bytes list" where
  "payloads c = map d_payload (cache (window (k_send c)))"



section \<open>Properties\<close>

text \<open>A connection with the default configuration, for the witnesses.\<close>

definition default_config :: kcp_config where
  "default_config = \<lparr>Mtu = None, Tti = None, UplinkCapacity = None, DownlinkCapacity = None,
     WriteBuffer = None, Congestion = False\<rparr>"

definition default_connection :: connection where
  "default_connection = the (NewConnection 7 default_config)"

lemma default_connection_simps:
  "k_state default_connection = StateActive" "k_stateBeginTime default_connection = 0"
  "k_send default_connection = NewSendingWorker 194 1553" "k_ticks default_connection = 0"
  "k_mss default_connection = 1332" "SendingWindow_IsEmpty (window (NewSendingWorker a b))"
  "cache (window (NewSendingWorker a b)) = []"
  by (simp_all add: default_connection_def default_config_def NewConnection_def Let_def
      GetSendingInFlightSize_def GetReceivingInFlightSize_def GetSendingBufferSize_def inflight_size_def
      GetMTUValue_def GetTTIValue_def GetUplinkCapacityValue_def GetDownlinkCapacityValue_def
      GetWriteBufferSize_def DataSegmentOverhead_def SendingWindow_IsEmpty_def NewSendingWorker_def
      NewSendingWindow_def)

text \<open>C15: what one flush does to the state, for a clock that does not advance within the flush. It
  leaves \<open>StateActive\<close> after 30 s without input, \<open>StateReadyToClose\<close> when everything is
  acknowledged or after 15 s, \<open>StatePeerTerminating\<close> after 4 s and \<open>StateTerminating\<close> after 8 s,
  and changes nothing in \<open>StateTerminated\<close>.\<close>

theorem flush_state_table:
  assumes "clk (k_ticks c) = t" "clk (Suc (k_ticks c)) = t" "clk (Suc (Suc (k_ticks c))) = t"
    and "age = t - k_stateBeginTime c"
    and "drained = SendingWindow_IsEmpty (window (k_send c))"
  shows "k_state (flush_conn clk c) =
    (case k_state c of
       StateActive \<Rightarrow>
         if t - k_lastIncomingTime c < 30000 then StateActive
         else if drained then StateTerminating else StateReadyToClose
     | StateReadyToClose \<Rightarrow> if drained \<or> age > 15000 then StateTerminating else StateReadyToClose
     | StatePeerClosed \<Rightarrow> StatePeerClosed
     | StatePeerTerminating \<Rightarrow> if age > 4000 then StateTerminating else StatePeerTerminating
     | StateTerminating \<Rightarrow> if age > 8000 then StateTerminated else StateTerminating
     | StateTerminated \<Rightarrow> StateTerminated)"
  using assms
  by (cases "k_state c")
    (simp_all add: k_state_flush Let_def flush_idle_def Close_def k_state_flush_late k_send_SetState not_le
      not_less)

theorem flush_state_table_witness:
  "k_state (flush_conn (\<lambda>_. 20000) (default_connection\<lparr>k_state := StateReadyToClose\<rparr>)) = StateTerminating"
  using flush_state_table [of "\<lambda>_. 20000" "default_connection\<lparr>k_state := StateReadyToClose\<rparr>" 20000
      "20000 - k_stateBeginTime default_connection" "SendingWindow_IsEmpty (window (k_send default_connection))"]
  by (simp add: default_connection_simps)

text \<open>C32: a drained connection that is ready to close skips its closing handshake when the clock
  moves between the two readings of one flush: the age of the new state, computed with the older
  reading, wraps around, and the connection is terminated at once, after a single terminate
  command, instead of waiting up to 8 s for the peer.\<close>

theorem flush_clock_race:
  assumes "k_state c = StateReadyToClose" "SendingWindow_IsEmpty (window (k_send c))"
    and "clk (Suc (k_ticks c)) = clk (k_ticks c) + d" "0 < d" "d < 0xFFFFE000"
  shows "k_state (flush_conn clk c) = StateTerminated"
proof -
  have "unat (- d) = 2 ^ 32 - unat d"
    using assms(4) unat_diff_wrap [of 0 d] by simp
  then have "8000 < - d"
    using assms(5) by (simp add: word_less_nat_alt)
  then show ?thesis
    using assms by (simp add: k_state_flush Let_def flush_idle_def)
qed

theorem flush_clock_race_witness:
  "k_state (flush_conn (\<lambda>n. 500 + of_nat n) (default_connection\<lparr>k_state := StateReadyToClose\<rparr>)) =
     StateTerminated"
  using flush_clock_race [of "default_connection\<lparr>k_state := StateReadyToClose\<rparr>" "\<lambda>n. 500 + of_nat n" 1]
  by (simp add: default_connection_simps)

text \<open>C23: once a connection is closing, it terminates: a flush 15 s after it became ready to close (or
  4 s after the peer terminated) leads to \<open>StateTerminating\<close> or beyond, and from there any run
  stays, until a flush more than 8 s later ends it.\<close>

theorem closing_terminates:
  assumes "k_state c \<in> {StateReadyToClose, StatePeerTerminating}"
    and "clk (k_ticks c) - k_stateBeginTime c > 15000"
    and "(kcp_step clk)\<^sup>*\<^sup>* (flush_conn clk c) d"
    and "clk (k_ticks d) - k_stateBeginTime d > 8000"
  shows "k_state d \<in> {StateTerminating, StateTerminated} \<and> k_state (flush_conn clk d) = StateTerminated"
proof -
  have "4000 < clk (k_ticks c) - k_stateBeginTime c"
    using assms(2) by (simp add: word_less_nat_alt)
  with assms(1,2) have "k_state (flush_conn clk c) \<in> {StateTerminating, StateTerminated}"
    by (auto simp: k_state_flush Let_def flush_idle_def k_state_flush_late)
  then have "3 \<le> kcp_rank (k_state (flush_conn clk c))" by auto
  also have "\<dots> \<le> kcp_rank (k_state d)"
    using assms(3) by (rule kcp_machine.run_rank)
  finally have d: "k_state d \<in> {StateTerminating, StateTerminated}"
    by (cases "k_state d") auto
  with assms(4) show ?thesis
    by (auto simp: k_state_flush Let_def flush_idle_def)
qed

theorem closing_terminates_witness:
  "let clk = (\<lambda>n. of_nat n * 16000); c = default_connection\<lparr>k_state := StateReadyToClose, k_ticks := 1\<rparr>
   in k_state (flush_conn clk (flush_conn clk c)) = StateTerminated"
proof -
  let ?clk = "\<lambda>n. of_nat n * 16000 :: u32"
  let ?c = "default_connection\<lparr>k_state := StateReadyToClose, k_ticks := 1\<rparr>"
  have "?clk (k_ticks (flush_conn ?clk ?c)) - k_stateBeginTime (flush_conn ?clk ?c) > 8000"
    by (simp add: flush_conn_stages flush_idle_def Let_def default_connection_simps)
  then show ?thesis
    using closing_terminates [of ?c ?clk "flush_conn ?clk ?c"]
    by (simp add: default_connection_simps)
qed



text \<open>A measured round-trip time is accepted only up to \<open>2^31 - 1\<close>, and the retransmission
  timeout computed from it never exceeds 12.5 s; the smoothed time does not fall below the
  minimum once it has been set.\<close>

lemma round_trip_bounds:
  assumes "rtt \<le> 0x7FFFFFFF"
  shows "rto (RoundTrip_Update info rtt now) \<le> 12500 \<and>
     updatedTimestamp (RoundTrip_Update info rtt now) = now \<and>
     (srtt info \<noteq> 0 \<longrightarrow> minRtt info \<le> srtt (RoundTrip_Update info rtt now))"
proof -
  have b: "r * 5 div 4 \<le> 12500" if "r \<le> 10000" for r :: u32
  proof -
    have "unat r \<le> 10000" using that by (simp add: word_le_nat_alt)
    then have "unat (r * 5) = unat r * 5" by (simp add: unat_mult_lem [THEN iffD1])
    then show ?thesis using \<open>unat r \<le> 10000\<close> by (simp add: word_le_nat_alt unat_div)
  qed
  show ?thesis
    using assms b by (auto simp: RoundTrip_Update_def Let_def not_less)
qed

lemma round_trip_bounds_witness:
  "rto (RoundTrip_Update (k_roundTrip default_connection) 20000 21000) \<le> 12500"
  using round_trip_bounds [of 20000 "k_roundTrip default_connection" 21000] by simp

text \<open>C29: making a connection divides by zero exactly for an MTU of 0 or a transmission interval of 0
  or above one second; otherwise the connection starts active, with nothing in flight, an empty
  window that may hold at least 8 segments in flight, and sound workers.\<close>

theorem new_connection_total:
  "(NewConnection conv cfg = None \<longleftrightarrow>
      GetMTUValue cfg = 0 \<or> GetTTIValue cfg = 0 \<or> GetTTIValue cfg > 1000) \<and>
   (\<forall>c. NewConnection conv cfg = Some c \<longrightarrow>
      k_state c = StateActive \<and> payloads c = [] \<and> 8 \<le> k_inFlight c \<and> sender_inv (k_send c) \<and>
      recv_inv f N (k_recv c) [])"
proof -
  have z: "1000 div t = 0 \<longleftrightarrow> t = 0 \<or> t > 1000" for t :: u32
  proof -
    have "1000 div t = 0 \<longleftrightarrow> 1000 div unat t = 0"
      using unat_div [of "1000 :: u32" t] unat_0_iff [of "1000 div t"] by simp
    then show ?thesis
      by (auto simp: word_less_nat_alt unat_0_iff div_eq_0_iff)
  qed
  show ?thesis
    by (auto simp: NewConnection_def Let_def GetSendingInFlightSize_def GetReceivingInFlightSize_def
        GetSendingBufferSize_def inflight_size_def z payloads_def NewSendingWorker_def NewSendingWindow_def
        not_less sender_inv_def recv_inv_New split: option.splits if_splits)
qed

theorem new_connection_total_witness:
  "k_state default_connection = StateActive \<and> NewConnection 7 (default_config\<lparr>Tti := Some 1001\<rparr>) = None"
  using new_connection_total [of 7 default_config "\<lambda>_. []" 0]
    new_connection_total [of 7 "default_config\<lparr>Tti := Some 1001\<rparr>" "\<lambda>_. []" 0]
  by (auto simp: default_connection_def default_config_def GetMTUValue_def GetTTIValue_def)

end
