(* ===== verification/Kcp_Concurrent.thy ===== *)
theory Kcp_Concurrent
  imports Kcp_Connection
begin

text \<open>
  The handlers of \<open>Kcp_Connection\<close> as the goroutines of the program run them. \<open>connection.go\<close> takes no
  lock around \<open>State\<close> and \<open>SetState\<close>: \<open>Input\<close>, \<open>Close\<close>, \<open>Read\<close>, \<open>Write\<close>, \<open>Terminate\<close> and the
  \<open>flush\<close> of two updaters run side by side. Here a handler is a list of atomic steps (\<open>thr\<close>): one
  atomic load or store of a field, one reading of the clock, one operation of a worker under that
  worker's mutex. \<open>conc_step\<close> interleaves any number of them over one connection. A handler that runs
  alone is the function of \<open>Kcp_Connection\<close> (the lemmas \<open>run_...\<close>).
\<close>

section \<open>Threads\<close>

text \<open>\<open>Step f k\<close>: one atomic step that turns the connection \<open>c\<close> into \<open>f c\<close> and goes on with \<open>k c\<close>.\<close>

datatype thr = Finished | Step "connection \<Rightarrow> connection" "connection \<Rightarrow> thr"

definition act :: "(connection \<Rightarrow> connection) \<Rightarrow> thr \<Rightarrow> thr" where
  "act f t = Step f (\<lambda>_. t)"

definition load :: "(connection \<Rightarrow> 'a) \<Rightarrow> ('a \<Rightarrow> thr) \<Rightarrow> thr" where
  "load g k = Step (\<lambda>c. c) (\<lambda>c. k (g c))"

definition branch :: "(connection \<Rightarrow> bool) \<Rightarrow> thr \<Rightarrow> thr \<Rightarrow> thr" where
  "branch g t e = load g (\<lambda>b. if b then t else e)"

definition clock :: "(nat \<Rightarrow> u32) \<Rightarrow> (u32 \<Rightarrow> thr) \<Rightarrow> thr" where
  "clock clk k = Step (\<lambda>c. c\<lparr>k_ticks := Suc (k_ticks c)\<rparr>) (\<lambda>c. k (clk (k_ticks c)))"

text \<open>A thread that nothing interrupts.\<close>

primrec run :: "thr \<Rightarrow> connection \<Rightarrow> connection" where
  "run Finished = (\<lambda>c. c)"
| "run (Step f k) = (\<lambda>c. run (k c) (f c))"

lemma run_simps [simp]:
  "run (act f t) c = run t (f c)"
  "run (load g k) c = run (k (g c)) c"
  "run (branch p t e) c = (if p c then run t c else run e c)"
  "run (clock clk j) c = run (j (clk (k_ticks c))) (c\<lparr>k_ticks := Suc (k_ticks c)\<rparr>)"
  by (simp_all add: act_def load_def branch_def clock_def)

section \<open>The handlers, step by step\<close>

definition signal_input :: "thr \<Rightarrow> thr" where
  "signal_input t = act (\<lambda>c. c\<lparr>k_dataInput := True\<rparr>) t"

definition signal_output :: "thr \<Rightarrow> thr" where
  "signal_output t = act (\<lambda>c. c\<lparr>k_dataOutput := True\<rparr>) t"

definition close_write :: "thr \<Rightarrow> thr" where
  "close_write t = act (\<lambda>c. c\<lparr>k_send := CloseWrite (k_send c)\<rparr>) t"

definition slow_ping :: "thr \<Rightarrow> thr" where
  "slow_ping t = act (\<lambda>c. c\<lparr>k_pingUpdater := (k_pingUpdater c)\<lparr>u_interval := 1000\<rparr>\<rparr>) t"

definition wake_ping :: "thr \<Rightarrow> thr" where
  "wake_ping t = act (\<lambda>c. c\<lparr>k_pingUpdater := Updater_WakeUp (k_pingUpdater c)\<rparr>) t"

text \<open>\<open>SetState\<close>: the clock is read first, the state is stored next, its begin time after that.\<close>

fun SetState_entry :: "kcp_state \<Rightarrow> thr \<Rightarrow> thr" where
  "SetState_entry StateActive t = t"
| "SetState_entry StateReadyToClose t = t"
| "SetState_entry StatePeerClosed t = close_write t"
| "SetState_entry StateTerminating t = close_write (slow_ping t)"
| "SetState_entry StatePeerTerminating t = close_write (slow_ping t)"
| "SetState_entry StateTerminated t =
     close_write (slow_ping (act wake_data (wake_ping (act (\<lambda>c. c\<lparr>k_terminate := Suc (k_terminate c)\<rparr>) t))))"

definition SetState_thr :: "(nat \<Rightarrow> u32) \<Rightarrow> kcp_state \<Rightarrow> thr \<Rightarrow> thr" where
  "SetState_thr clk st t =
     clock clk (\<lambda>current.
       act (\<lambda>c. c\<lparr>k_state := st\<rparr>)
       (act (\<lambda>c. c\<lparr>k_stateBeginTime := current\<rparr>)
       (SetState_entry st t)))"

definition Close_thr :: "(nat \<Rightarrow> u32) \<Rightarrow> thr \<Rightarrow> thr" where
  "Close_thr clk t =
     signal_input (signal_output (load k_state (\<lambda>st. case st of
         StateActive \<Rightarrow> SetState_thr clk StateReadyToClose t
       | StatePeerClosed \<Rightarrow> SetState_thr clk StateTerminating t
       | StatePeerTerminating \<Rightarrow> SetState_thr clk StateTerminated t
       | _ \<Rightarrow> t)))"

definition Terminate_thr :: "thr \<Rightarrow> thr" where
  "Terminate_thr t =
     signal_input (signal_output
       (act (\<lambda>c. c\<lparr>k_closerClosed := True\<rparr>)
       (act (\<lambda>c. c\<lparr>k_send := SendingWorker_Release (k_send c)\<rparr>)
       (act (\<lambda>c. c\<lparr>k_recv := ReceivingWorker_Release (k_recv c)\<rparr>) t))))"

definition OnPeerClosed_thr :: "(nat \<Rightarrow> u32) \<Rightarrow> thr \<Rightarrow> thr" where
  "OnPeerClosed_thr clk t =
     load k_state (\<lambda>st. case st of
         StateReadyToClose \<Rightarrow> SetState_thr clk StateTerminating t
       | StateActive \<Rightarrow> SetState_thr clk StatePeerClosed t
       | _ \<Rightarrow> t)"

definition HandleOption_thr :: "(nat \<Rightarrow> u32) \<Rightarrow> byte \<Rightarrow> thr \<Rightarrow> thr" where
  "HandleOption_thr clk opt t =
     (if opt AND SegmentOptionClose = SegmentOptionClose then OnPeerClosed_thr clk t else t)"

definition Ping_thr :: "u32 \<Rightarrow> command \<Rightarrow> thr \<Rightarrow> thr" where
  "Ping_thr current cmd t =
     load (\<lambda>c. r_nextNumber (k_recv c)) (\<lambda>nextNumber.
     load (\<lambda>c. firstUnacknowledged (k_send c)) (\<lambda>una.
     load (\<lambda>c. rto (k_roundTrip c)) (\<lambda>timeout.
     load (\<lambda>c. k_state c = StateReadyToClose) (\<lambda>closing.
     act (\<lambda>c. c\<lparr>k_out := k_out c @ [CmdOnly (NewCmdOnlySegment\<lparr>c_Conv := k_Conversation c, c_Cmd := cmd,
            c_ReceivingNext := nextNumber, c_SendingNext := una, c_PeerRTO := timeout,
            c_Option := (if closing then SegmentOptionClose else 0)\<rparr>)]\<rparr>)
     (act (\<lambda>c. c\<lparr>k_lastPingTime := current\<rparr>) t)))))"

subsection \<open>Input\<close>

definition Input_data_thr :: "(nat \<Rightarrow> u32) \<Rightarrow> data_segment \<Rightarrow> thr \<Rightarrow> thr" where
  "Input_data_thr clk seg t =
     HandleOption_thr clk (d_Option seg)
     (act (\<lambda>c. c\<lparr>k_recv := ReceivingWorker_ProcessSegment (k_recv c) seg\<rparr>)
     (let t = act wake_data t
      in branch (\<lambda>c. IsDataAvailable (k_recv c)) (signal_input t) t))"

definition Input_ack_thr :: "(nat \<Rightarrow> u32) \<Rightarrow> u32 \<Rightarrow> ack_segment \<Rightarrow> thr \<Rightarrow> thr" where
  "Input_ack_thr clk current seg t =
     HandleOption_thr clk (a_Option seg)
     (load (\<lambda>c. rto (k_roundTrip c)) (\<lambda>timeout.
      Step (\<lambda>c. c\<lparr>k_send := fst (SendingWorker_ProcessSegment (k_send c) current seg timeout)\<rparr>)
        (\<lambda>c. let t = signal_output (act wake_data t)
             in case snd (SendingWorker_ProcessSegment (k_send c) current seg timeout) of
                  None \<Rightarrow> t
                | Some (rtt, now) \<Rightarrow> act (\<lambda>c. c\<lparr>k_roundTrip := RoundTrip_Update (k_roundTrip c) rtt now\<rparr>) t)))"

definition Input_cmd_thr :: "(nat \<Rightarrow> u32) \<Rightarrow> u32 \<Rightarrow> cmd_segment \<Rightarrow> thr \<Rightarrow> thr" where
  "Input_cmd_thr clk current seg t =
     (let workers =
            act (\<lambda>c. c\<lparr>k_send := ProcessReceivingNext (k_send c) (c_ReceivingNext seg)\<rparr>)
            (act (\<lambda>c. c\<lparr>k_recv := ProcessSendingNext (k_recv c) (c_SendingNext seg)\<rparr>)
            (act (\<lambda>c. c\<lparr>k_roundTrip := UpdatePeerRTO (k_roundTrip c) (c_PeerRTO seg) current\<rparr>) t));
          signals = (if c_Option seg = SegmentOptionClose \<or> c_Cmd seg = CommandTerminate
                     then signal_input (signal_output workers) else workers)
      in HandleOption_thr clk (c_Option seg)
           (if c_Cmd seg = CommandTerminate
            then load k_state (\<lambda>st. case st of
                   StateActive \<Rightarrow> SetState_thr clk StatePeerTerminating signals
                 | StatePeerClosed \<Rightarrow> SetState_thr clk StatePeerTerminating signals
                 | StateReadyToClose \<Rightarrow> SetState_thr clk StateTerminating signals
                 | StateTerminating \<Rightarrow> SetState_thr clk StateTerminated signals
                 | _ \<Rightarrow> signals)
            else signals))"

fun Input_segment_thr :: "(nat \<Rightarrow> u32) \<Rightarrow> u32 \<Rightarrow> segment \<Rightarrow> thr \<Rightarrow> thr" where
  "Input_segment_thr clk current (Data seg) t = Input_data_thr clk seg t"
| "Input_segment_thr clk current (Ack seg) t = Input_ack_thr clk current seg t"
| "Input_segment_thr clk current (CmdOnly seg) t = Input_cmd_thr clk current seg t"

fun Input_loop_thr :: "(nat \<Rightarrow> u32) \<Rightarrow> u32 \<Rightarrow> segment list \<Rightarrow> thr \<Rightarrow> thr" where
  "Input_loop_thr clk current [] t = t"
| "Input_loop_thr clk current (seg # segs) t =
     branch (\<lambda>c. Conversation seg \<noteq> k_Conversation c) t
       (Input_segment_thr clk current seg (Input_loop_thr clk current segs t))"

definition Input_thr :: "(nat \<Rightarrow> u32) \<Rightarrow> segment list \<Rightarrow> thr \<Rightarrow> thr" where
  "Input_thr clk segments t =
     clock clk (\<lambda>current. act (\<lambda>c. c\<lparr>k_lastIncomingTime := current\<rparr>)
       (Input_loop_thr clk current segments t))"

subsection \<open>Flush and the updaters\<close>

definition flush_send_thr :: "u32 \<Rightarrow> thr \<Rightarrow> thr" where
  "flush_send_thr current t =
     Step (\<lambda>c. let (w, out, _) = SendingWorker_Flush (conn_env c) (k_send c) current
               in c\<lparr>k_send := w, k_out := k_out c @ map Data out\<rparr>)
       (\<lambda>c. let (_, _, updated) = SendingWorker_Flush (conn_env c) (k_send c) current
            in if updated then Ping_thr current CommandPing t else t)"

definition flush_tail_thr :: "(nat \<Rightarrow> u32) \<Rightarrow> u32 \<Rightarrow> thr \<Rightarrow> thr" where
  "flush_tail_thr clk current t =
     act (flush_recv current) (flush_send_thr current
       (branch (\<lambda>c. current - k_lastPingTime c \<ge> 3000) (Ping_thr current CommandPing t) t))"

definition set_if_old :: "(nat \<Rightarrow> u32) \<Rightarrow> u32 \<Rightarrow> kcp_state \<Rightarrow> u32 \<Rightarrow> kcp_state \<Rightarrow> thr \<Rightarrow> thr" where
  "set_if_old clk current st age st' t =
     branch (\<lambda>c. k_state c = st)
       (branch (\<lambda>c. current - k_stateBeginTime c > age) (SetState_thr clk st' t) t) t"

definition flush_terminating_thr :: "(nat \<Rightarrow> u32) \<Rightarrow> u32 \<Rightarrow> thr \<Rightarrow> thr" where
  "flush_terminating_thr clk current t =
     Ping_thr current CommandTerminate
       (branch (\<lambda>c. current - k_stateBeginTime c > 8000) (SetState_thr clk StateTerminated t) t)"

definition flush_idle_thr :: "(nat \<Rightarrow> u32) \<Rightarrow> u32 \<Rightarrow> thr \<Rightarrow> thr" where
  "flush_idle_thr clk current t =
     (let drained =
            branch (\<lambda>c. k_state c = StateReadyToClose)
              (branch (\<lambda>c. SendingWindow_IsEmpty (window (k_send c)))
                 (SetState_thr clk StateTerminating t) t) t
      in branch (\<lambda>c. k_state c = StateActive)
           (branch (\<lambda>c. current - k_lastIncomingTime c \<ge> 30000) (Close_thr clk drained) drained) drained)"

definition flush_thr :: "(nat \<Rightarrow> u32) \<Rightarrow> thr \<Rightarrow> thr" where
  "flush_thr clk t =
     clock clk (\<lambda>current.
       branch (\<lambda>c. k_state c = StateTerminated) t
       (flush_idle_thr clk current
       (branch (\<lambda>c. k_state c = StateTerminating)
          (flush_terminating_thr clk current t)
          (set_if_old clk current StatePeerTerminating 4000 StateTerminating
          (set_if_old clk current StateReadyToClose 15000 StateTerminating
          (flush_tail_thr clk current t))))))"

definition set_data_phase :: "updater_phase \<Rightarrow> thr \<Rightarrow> thr" where
  "set_data_phase p t = act (\<lambda>c. c\<lparr>k_dataUpdater := (k_dataUpdater c)\<lparr>u_phase := p\<rparr>\<rparr>) t"

definition set_ping_phase :: "updater_phase \<Rightarrow> thr \<Rightarrow> thr" where
  "set_ping_phase p t = act (\<lambda>c. c\<lparr>k_pingUpdater := (k_pingUpdater c)\<lparr>u_phase := p\<rparr>\<rparr>) t"

definition dataUpdater_thr :: "(nat \<Rightarrow> u32) \<Rightarrow> thr \<Rightarrow> thr" where
  "dataUpdater_thr clk t =
     load (\<lambda>c. u_phase (k_dataUpdater c)) (\<lambda>p. case p of
         UIdle \<Rightarrow> t
       | UStarted \<Rightarrow> branch isTerminating (set_data_phase UIdle t) (set_data_phase ULoop t)
       | ULoop \<Rightarrow> branch isTerminating (set_data_phase UIdle t)
           (branch (\<lambda>c. SendingWorker_UpdateNecessary (k_send c)) (flush_thr clk t)
           (branch (\<lambda>c. ReceivingWorker_UpdateNecessary (k_recv c)) (flush_thr clk t)
           (set_data_phase UIdle t))))"

definition pingUpdater_thr :: "(nat \<Rightarrow> u32) \<Rightarrow> thr \<Rightarrow> thr" where
  "pingUpdater_thr clk t =
     load (\<lambda>c. u_phase (k_pingUpdater c)) (\<lambda>p. case p of
         UIdle \<Rightarrow> t
       | UStarted \<Rightarrow> branch (\<lambda>c. k_state c = StateTerminated) (set_ping_phase UIdle t) (set_ping_phase ULoop t)
       | ULoop \<Rightarrow> branch (\<lambda>c. k_state c = StateTerminated) (set_ping_phase UIdle t) (flush_thr clk t))"

subsection \<open>Reading and writing\<close>

definition ReadMultiBuffer_thr :: "thr \<Rightarrow> thr" where
  "ReadMultiBuffer_thr t =
     branch (\<lambda>c. k_state c \<in> {StateReadyToClose, StateTerminating, StateTerminated}) t
       (Step (\<lambda>c. c\<lparr>k_recv := fst (ReceivingWorker_ReadMultiBuffer (k_recv c))\<rparr>)
         (\<lambda>c. if concat (snd (ReceivingWorker_ReadMultiBuffer (k_recv c))) \<noteq> [] then act wake_data t
              else load (\<lambda>c. k_state c = StatePeerTerminating) (\<lambda>_. t)))"

definition Read_thr :: "nat \<Rightarrow> thr \<Rightarrow> thr" where
  "Read_thr n t =
     branch (\<lambda>c. k_state c \<in> {StateReadyToClose, StateTerminating, StateTerminated}) t
       (Step (\<lambda>c. c\<lparr>k_recv := fst (ReceivingWorker_Read (k_recv c) n)\<rparr>)
         (\<lambda>c. if snd (ReceivingWorker_Read (k_recv c) n) \<noteq> [] then act wake_data t else t))"

text \<open>
  One turn of the inner loop of \<open>writeMultiBufferInternal\<close> after another, until the window is full,
  the reader is empty or the connection is no longer active; \<open>mss\<close> never changes.
\<close>

function Write_thr :: "u32 \<Rightarrow> bytes option \<Rightarrow> bytes \<Rightarrow> bool \<Rightarrow> thr \<Rightarrow> thr" where
  "Write_thr mss b rd upd t =
     (let t' = (if upd then act wake_data t else t);
          push = (\<lambda>chunk more. Step (\<lambda>c. if snd (SendingWorker_Push (k_send c) chunk)
              then c\<lparr>k_send := fst (SendingWorker_Push (k_send c) chunk)\<rparr> else c)
            (\<lambda>c. if snd (SendingWorker_Push (k_send c) chunk) then more else t'))
      in branch (\<lambda>c. k_state c \<noteq> StateActive) t'
           (case b of
              Some chunk \<Rightarrow> push chunk (Write_thr mss None rd True t)
            | None \<Rightarrow>
                let chunk = take (min (unat mss) buf_Size) rd
                in if chunk = [] then t'
                   else push chunk (Write_thr mss None (drop (length chunk) rd) True t)))"
  by pat_completeness auto
termination
  by (relation "measure (\<lambda>(mss, b, rd, upd, t). length rd + (case b of None \<Rightarrow> 0 | Some _ \<Rightarrow> 1))") auto

declare Write_thr.simps [simp del]

section \<open>A handler that runs alone is the function of \<open>Kcp_Connection\<close>\<close>

lemma run_SetState [simp]: "run (SetState_thr clk st t) c = run t (SetState clk st c)"
  by (cases st; cases c) (simp_all add: SetState_thr_def SetState_def Elapsed_def Let_def close_write_def
      slow_ping_def wake_ping_def wake_data_def)

lemma run_Close [simp]: "run (Close_thr clk t) c = run t (fst (Close clk c))"
  by (cases "k_state c") (simp_all add: Close_thr_def Close_def Let_def signal_input_def signal_output_def)

lemma run_Terminate [simp]: "run (Terminate_thr t) c = run t (Terminate c)"
  by (simp add: Terminate_thr_def Terminate_def signal_input_def signal_output_def)

lemma run_HandleOption [simp]: "run (HandleOption_thr clk opt t) c = run t (HandleOption clk opt c)"
  by (cases "k_state c") (simp_all add: HandleOption_thr_def HandleOption_def OnPeerClosed_thr_def OnPeerClosed_def)

lemma run_Ping [simp]: "run (Ping_thr current cmd t) c = run t (Ping current cmd c)"
  by (simp add: Ping_thr_def Ping_def Let_def)

lemma run_Input_segment [simp]:
  "run (Input_segment_thr clk current seg t) c = run t (Input_segment clk current seg c)"
proof (cases seg)
  case (Data s)
  then show ?thesis
    by (simp add: Input_data_thr_def Input_data_def Let_def signal_input_def)
next
  case (Ack s)
  then show ?thesis
    by (cases "HandleOption clk (a_Option s) c")
      (simp add: Input_ack_thr_def Input_ack_def Let_def signal_output_def split_beta split: option.split)
next
  case (CmdOnly s)
  then show ?thesis
    by (cases "k_state (HandleOption clk (c_Option s) c)")
      (simp_all add: Input_cmd_thr_def Input_cmd_def Let_def signal_input_def signal_output_def)
qed

lemma run_Input_loop [simp]: "run (Input_loop_thr clk current segs t) c = run t (Input_loop clk current segs c)"
  by (induction segs arbitrary: c) simp_all

lemma run_Input: "run (Input_thr clk segs Finished) c = Input clk segs c"
  by (simp add: Input_thr_def Input_def Elapsed_def)

lemma run_flush_send [simp]: "run (flush_send_thr current t) c = run t (flush_send current c)"
  by (simp add: flush_send_thr_def flush_send_def split_beta Let_def)

lemma run_flush_idle [simp]: "run (flush_idle_thr clk current t) c = run t (flush_idle clk current c)"
  by (simp add: flush_idle_thr_def flush_idle_def Let_def)

lemma run_flush [simp]: "run (flush_thr clk t) c = run t (flush_conn clk c)"
  by (simp add: flush_thr_def flush_conn_stages Let_def flush_terminating_thr_def set_if_old_def
      flush_tail_thr_def flush_late_def)

lemma run_dataUpdater: "run (dataUpdater_thr clk Finished) c = dataUpdater_run clk c"
  by (cases "u_phase (k_dataUpdater c)") (simp_all add: dataUpdater_thr_def dataUpdater_run_def Let_def
      set_data_phase_def)

lemma run_pingUpdater: "run (pingUpdater_thr clk Finished) c = pingUpdater_run clk c"
  by (cases "u_phase (k_pingUpdater c)") (simp_all add: pingUpdater_thr_def pingUpdater_run_def Let_def
      set_ping_phase_def)

lemma run_ReadMultiBuffer: "run (ReadMultiBuffer_thr Finished) c = fst (Connection_ReadMultiBuffer c)"
  by (simp add: ReadMultiBuffer_thr_def Connection_ReadMultiBuffer_def Let_def split_beta)

lemma run_Read: "run (Read_thr n Finished) c = fst (Connection_Read c n)"
  by (simp add: Read_thr_def Connection_Read_def Let_def split_beta)

lemma run_Write_aux:
  "run (Write_thr (k_mss c) b rd upd t) c =
     (let (c', _, _, _, upd') = write_loop c b rd upd in run t (if upd' then wake_data c' else c'))"
proof (induction c b rd upd rule: write_loop.induct)
  case (1 c b rd upd)
  show ?case
  proof (cases b)
    case None
    define chunk where "chunk = take (min (unat (k_mss c)) buf_Size) rd"
    obtain w ok where p: "SendingWorker_Push (k_send c) chunk = (w, ok)" by fastforce
    have IH: "run (Write_thr (k_mss c) None (drop (length chunk) rd) True t) (c\<lparr>k_send := w\<rparr>) =
        (let (c', _, _, _, upd') = write_loop (c\<lparr>k_send := w\<rparr>) None (drop (length chunk) rd) True
         in run t (if upd' then wake_data c' else c'))"
      if "k_state c = StateActive" "chunk \<noteq> []" ok
      using "1.IH"(1) [of chunk "(w, ok)" w ok] None p that by (simp add: chunk_def)
    show ?thesis
      unfolding None Write_thr.simps [of "k_mss c" None rd upd t] write_loop.simps [of c None rd upd]
      using IH p by (auto simp: Let_def split_beta chunk_def [symmetric])
  next
    case (Some x)
    obtain w ok where p: "SendingWorker_Push (k_send c) x = (w, ok)" by fastforce
    have IH: "run (Write_thr (k_mss c) None rd True t) (c\<lparr>k_send := w\<rparr>) =
        (let (c', _, _, _, upd') = write_loop (c\<lparr>k_send := w\<rparr>) None rd True
         in run t (if upd' then wake_data c' else c'))"
      if "k_state c = StateActive" ok
      using "1.IH"(2) [of x "(w, ok)" w ok] Some p that by simp
    show ?thesis
      unfolding Some Write_thr.simps [of "k_mss c" "Some x" rd upd t] write_loop.simps [of c "Some x" rd upd]
      using IH p by (auto simp: Let_def split_beta)
  qed
qed

lemma run_Write: "run (Write_thr (k_mss c) b rd False Finished) c = fst (Connection_Write c b rd)"
  by (simp add: run_Write_aux Connection_Write_def Let_def split_beta)

section \<open>Interleaving\<close>



subsection \<open>What a thread can do to the state\<close>

text \<open>
  A thread is sound above \<open>s\<close> when, while the state is \<open>s\<close> or a state after it, its steps either
  leave the state or store one strictly after \<open>s\<close> (it need not be after the state it overwrites).
\<close>

primrec sound_above :: "kcp_state \<Rightarrow> thr \<Rightarrow> bool" where
  "sound_above s Finished = True"
| "sound_above s (Step f k) =
     (\<forall>c. kcp_path s (k_state c) \<longrightarrow>
        (k_state (f c) = k_state c \<or> kcp_edge\<^sup>+\<^sup>+ s (k_state (f c))) \<and> sound_above s (k c))"

lemma sound_act [simp]:
  "(\<And>c. k_state (f c) = k_state c) \<Longrightarrow> sound_above s (act f t) = sound_above s t"
  by (auto simp: act_def intro!: exI [of _ "undefined\<lparr>k_state := s\<rparr>"])

lemma sound_load [simp]:
  "sound_above s (load g k) \<longleftrightarrow> (\<forall>c. kcp_path s (k_state c) \<longrightarrow> sound_above s (k (g c)))"
  by (simp add: load_def)

lemma sound_if [simp]:
  "sound_above s (if b then t else e) \<longleftrightarrow> (if b then sound_above s t else sound_above s e)"
  by simp



lemma sound_effects [simp]:
  "sound_above s (signal_input t) = sound_above s t"
  "sound_above s (signal_output t) = sound_above s t"
  "sound_above s (close_write t) = sound_above s t"
  "sound_above s (slow_ping t) = sound_above s t"
  "sound_above s (wake_ping t) = sound_above s t"
  "sound_above s (set_data_phase p t) = sound_above s t"
  "sound_above s (set_ping_phase p t) = sound_above s t"
  by (simp_all add: signal_input_def signal_output_def close_write_def slow_ping_def wake_ping_def
      set_data_phase_def set_ping_phase_def)

















subsection \<open>Runs\<close>






text \<open>A schedule: each entry moves one thread, by its index; a finished thread stays.\<close>

fun sched :: "nat list \<Rightarrow> connection \<times> thr list \<Rightarrow> connection \<times> thr list" where
  "sched [] p = p"
| "sched (i # is) (c, ts) =
     (case ts ! i of Finished \<Rightarrow> sched is (c, ts) | Step f k \<Rightarrow> sched is (f c, ts[i := k c]))"



lemmas thr_defs = act_def load_def branch_def clock_def signal_input_def signal_output_def close_write_def
  slow_ping_def wake_ping_def SetState_thr_def Close_thr_def Terminate_thr_def OnPeerClosed_thr_def
  HandleOption_thr_def Input_thr_def Input_cmd_thr_def set_ping_phase_def pingUpdater_thr_def flush_thr_def
  flush_idle_thr_def flush_terminating_thr_def set_if_old_def

lemma default_ping: "k_pingUpdater default_connection = \<lparr>u_interval = 5000, u_phase = UStarted\<rparr>"
  "k_Conversation default_connection = 7" "k_terminate default_connection = 0"
  by (simp_all add: default_connection_def default_config_def NewConnection_def Let_def Updater_WakeUp_def
      GetSendingInFlightSize_def GetReceivingInFlightSize_def GetSendingBufferSize_def inflight_size_def
      GetMTUValue_def GetTTIValue_def GetUplinkCapacityValue_def GetDownlinkCapacityValue_def
      GetWriteBufferSize_def)

text \<open>
  \<open>Close\<close> has read \<open>StateActive\<close> when a packet closes the peer's side: the peer's \<open>StatePeerClosed\<close> is
  overwritten by \<open>StateReadyToClose\<close>, against the graph.
\<close>

definition closing_packet :: segment where
  "closing_packet = CmdOnly (NewCmdOnlySegment\<lparr>c_Conv := 7, c_Option := SegmentOptionClose\<rparr>)"

lemma close_races_input:
  "let ts = [Close_thr clk Finished, Input_thr clk [closing_packet] Finished];
       p = sched [0, 0, 0, 1, 1, 1, 1, 1, 1] (default_connection, ts); q = sched [0, 0] p
   in k_state (fst p) = StatePeerClosed \<and> k_state (fst q) = StateReadyToClose"
  by (simp add: thr_defs closing_packet_def default_connection_simps default_ping Let_def
      SegmentOptionClose_def)












end
