(* ===== verification/App_Log.thy ===== *)
theory App_Log
  imports Prelude
begin

text \<open>
  \<open>entry/src/main/golang/xlog/xlog.go\<close>: the app's log. Its package variables are the record \<open>xlog\<close>,
  with the content of the files of the log directories (by directory and name) and the lines given to
  hilog. What one write takes from its environment is the record \<open>log_env\<close>: the time, formatted as the
  code formats it, and whether the file system lets it create a directory, open a file and write a
  line. \<open>Init\<close> reads the clock anew for every entry it writes, so it takes one \<open>log_env\<close> per entry.
  \<open>Fields\<close> is kept as the list it is rendered from; its JSON text is not modelled.
\<close>

datatype json = JNull | JBool bool | JInt int | JReal string | JStr string | JArr "json list" | JObj "(string \<times> json) list"

type_synonym log_fields = "(string \<times> json) list"

definition LevelDebug :: int where "LevelDebug = 3"
definition LevelInfo :: int where "LevelInfo = 4"
definition LevelWarn :: int where "LevelWarn = 5"
definition LevelError :: int where "LevelError = 6"
definition LevelFatal :: int where "LevelFatal = 7"

lemmas level_defs = LevelDebug_def LevelInfo_def LevelWarn_def LevelError_def LevelFatal_def

definition ringSize :: nat where "ringSize = 1000"

record log_entry =
  e_Time :: string
  e_Level :: int
  e_Module :: string
  e_Message :: string
  e_Fields :: log_fields

text \<open>A formatted line: its text, and the fields whose JSON follows it.\<close>

type_synonym log_line = "string \<times> log_fields"

type_synonym file_id = "string \<times> string"

text \<open>
  What a file holds, in order: a line written whole, a line of which a failing write left the first
  bytes only, or (a crash file) a text.
\<close>

datatype written = Line log_line | Torn log_line nat | Text string

text \<open>\<open>torn f line\<close> is how many bytes a failing write of the line leaves in the file, \<open>None\<close> if it succeeds.\<close>

record log_env =
  now_time :: string
  now_day :: string
  mkdir_err :: "string \<Rightarrow> string option"
  open_ok :: "file_id \<Rightarrow> bool"
  torn :: "file_id \<Rightarrow> log_line \<Rightarrow> nat option"

text \<open>
  \<open>unlinked\<close>: the open file has been removed from its directory, by \<open>CleanOld\<close>; what is written to it
  is then in no file of the directory.
\<close>

record xlog =
  minLevel :: int
  ring :: "log_entry list"
  logDir :: string
  logFile :: "file_id option"
  logDay :: string
  unlinked :: bool
  files :: "file_id \<Rightarrow> written list"
  hilog :: "(int \<times> log_line) list"

definition initial_xlog :: "(file_id \<Rightarrow> written list) \<Rightarrow> xlog" where
  "initial_xlog fs = \<lparr>minLevel = LevelDebug, ring = [], logDir = '''', logFile = None, logDay = '''',
     unlinked = False, files = fs, hilog = []\<rparr>"

section \<open>Operations\<close>

definition SetLevel :: "int \<Rightarrow> xlog \<Rightarrow> xlog" where
  "SetLevel level x = x\<lparr>minLevel := level\<rparr>"

definition GetLevel :: "xlog \<Rightarrow> int" where
  "GetLevel x = minLevel x"

definition LogDir :: "xlog \<Rightarrow> string" where
  "LogDir x = logDir x"

definition levelName :: "int \<Rightarrow> string" where
  "levelName l =
     (if l = LevelDebug then ''D'' else if l = LevelInfo then ''I'' else if l = LevelWarn then ''W''
      else if l = LevelError then ''E'' else if l = LevelFatal then ''F'' else ''?'')"

definition formatLine :: "log_entry \<Rightarrow> log_line" where
  "formatLine e =
     (e_Time e @ '' '' @ levelName (e_Level e) @ '' ['' @ e_Module e @ ''] '' @ e_Message e @
        (if e_Fields e \<noteq> [] then '' '' else ''''), e_Fields e)"

definition pushRingLocked :: "log_entry \<Rightarrow> log_entry list \<Rightarrow> log_entry list" where
  "pushRingLocked e r =
     (let r = (if length r \<ge> ringSize then take (ringSize - 1) (drop 1 r @ drop (length r - 1) r) else r)
      in r @ [e])"

definition currentFileLocked :: "log_env \<Rightarrow> xlog \<Rightarrow> file_id option \<times> xlog" where
  "currentFileLocked env x =
     (if logDir x = '''' then (None, x)
      else if logFile x \<noteq> None \<and> logDay x = now_day env then (logFile x, x)
      else
        let x = x\<lparr>logFile := None\<rparr>;
            path = (logDir x, ''vpnapp_'' @ now_day env @ ''.log'')
        in if open_ok env path
           then (Some path, x\<lparr>logFile := Some path, logDay := now_day env, unlinked := False\<rparr>)
           else (None, x))"

definition writeFileLocked :: "log_env \<Rightarrow> log_line \<Rightarrow> xlog \<Rightarrow> xlog" where
  "writeFileLocked env line x =
     (case currentFileLocked env x of
        (None, x) \<Rightarrow> x
      | (Some f, x) \<Rightarrow>
          if unlinked x then x
          else x\<lparr>files := (files x)(f := files x f @
                 [case torn env f line of None \<Rightarrow> Line line | Some n \<Rightarrow> Torn line n])\<rparr>)"

definition write_log :: "log_env \<Rightarrow> int \<Rightarrow> string \<Rightarrow> string \<Rightarrow> log_fields \<Rightarrow> xlog \<Rightarrow> xlog" where
  "write_log env level module msg flds x =
     (if level < minLevel x then x
      else
        let e = \<lparr>e_Time = now_time env, e_Level = level, e_Module = module, e_Message = msg, e_Fields = flds\<rparr>;
            x = x\<lparr>ring := pushRingLocked e (ring x)\<rparr>;
            line = formatLine e;
            x = x\<lparr>hilog := hilog x @ [(level, line)]\<rparr>
        in writeFileLocked env line x)"

abbreviation Info :: "log_env \<Rightarrow> string \<Rightarrow> string \<Rightarrow> log_fields \<Rightarrow> xlog \<Rightarrow> xlog" where
  "Info env \<equiv> write_log env LevelInfo"

abbreviation Warn :: "log_env \<Rightarrow> string \<Rightarrow> string \<Rightarrow> log_fields \<Rightarrow> xlog \<Rightarrow> xlog" where
  "Warn env \<equiv> write_log env LevelWarn"

definition WriteExternal :: "log_env \<Rightarrow> int \<Rightarrow> string \<Rightarrow> string \<Rightarrow> xlog \<Rightarrow> xlog" where
  "WriteExternal env level module msg x =
     (let level = (if level < LevelDebug \<or> level > LevelFatal then LevelInfo else level)
      in write_log env level module msg [] x)"

text \<open>\<open>flushRingLocked\<close>: the write of the entry at position \<open>i\<close> finds the environment \<open>envs i\<close>.\<close>

fun flush_entries :: "(nat \<Rightarrow> log_env) \<Rightarrow> log_entry list \<Rightarrow> xlog \<Rightarrow> xlog" where
  "flush_entries envs [] x = x"
| "flush_entries envs (e # es) x =
     flush_entries (\<lambda>i. envs (Suc i)) es (writeFileLocked (envs 0) (formatLine e) x)"

definition flushRingLocked :: "(nat \<Rightarrow> log_env) \<Rightarrow> xlog \<Rightarrow> xlog" where
  "flushRingLocked envs x = flush_entries envs (ring x) x"

definition Init :: "log_env \<Rightarrow> (nat \<Rightarrow> log_env) \<Rightarrow> string \<Rightarrow> xlog \<Rightarrow> string option \<times> xlog" where
  "Init env envs dir x =
     (case mkdir_err env dir of
        Some e \<Rightarrow> (Some e, x)
      | None \<Rightarrow> (None, flushRingLocked envs (x\<lparr>logDir := dir\<rparr>)))"

definition Recent :: "int \<Rightarrow> xlog \<Rightarrow> log_entry list" where
  "Recent limit x =
     (let n = int (length (ring x));
          limit = (if limit \<le> 0 \<or> limit > n then n else limit)
      in drop (length (ring x) - nat limit) (ring x))"

text \<open>
  \<open>CleanOld\<close>: what it takes from outside are the instant \<open>time.Now().AddDate(0, 0, -d)\<close> (calendar
  arithmetic of the standard library, in nanoseconds), the directory's entries with their modification
  times (\<open>None\<close> where \<open>Info\<close> fails) or the error of \<open>ReadDir\<close>, and which names \<open>os.Remove\<close> can remove. Its
  error is dropped. The result is the error of \<open>ReadDir\<close>, if any.
\<close>

record clean_env =
  ago :: "int \<Rightarrow> int"
  listing :: "string + (string \<times> int option) list"
  remove_ok :: "string \<Rightarrow> bool"

definition Remove :: "clean_env \<Rightarrow> string \<Rightarrow> xlog \<Rightarrow> xlog" where
  "Remove cenv name x =
     (let path = (logDir x, name) in
      if remove_ok cenv name
      then x\<lparr>files := (files x)(path := []), unlinked := (unlinked x \<or> logFile x = Some path)\<rparr>
      else x)"

fun clean_entries :: "clean_env \<Rightarrow> int \<Rightarrow> (string \<times> int option) list \<Rightarrow> xlog \<Rightarrow> xlog" where
  "clean_entries cenv cutoff [] x = x"
| "clean_entries cenv cutoff ((name, mtime) # es) x =
     (case mtime of
        None \<Rightarrow> clean_entries cenv cutoff es x
      | Some t \<Rightarrow> clean_entries cenv cutoff es (if t < cutoff then Remove cenv name x else x))"

definition CleanOld :: "clean_env \<Rightarrow> int \<Rightarrow> xlog \<Rightarrow> string option \<times> xlog" where
  "CleanOld cenv keepDays x =
     (if logDir x = '''' then (None, x)
      else
        let cutoff = ago cenv keepDays in
        case listing cenv of
          Inl err \<Rightarrow> (Some err, x)
        | Inr entries \<Rightarrow> (None, clean_entries cenv cutoff entries x))"

section \<open>The ring\<close>

definition last_n :: "nat \<Rightarrow> 'a list \<Rightarrow> 'a list" where
  "last_n n xs = drop (length xs - n) xs"

lemma length_last_n [simp]: "length (last_n n xs) = min n (length xs)"
  by (simp add: last_n_def min_def)

lemma last_n_snoc: "0 < n \<Longrightarrow> last_n n (last_n n xs @ [x]) = last_n n (xs @ [x])"
  by (cases "n \<le> length xs") (auto simp: last_n_def Suc_diff_le)

lemma last_n_all: "length xs \<le> n \<Longrightarrow> last_n n xs = xs"
  by (simp add: last_n_def)

lemma last_n_last_n: "k \<le> length (last_n n xs) \<Longrightarrow> last_n k (last_n n xs) = last_n k xs"
  by (cases "n \<le> length xs") (simp_all add: last_n_def)

lemma pushRing_last_n:
  assumes "length r \<le> ringSize"
  shows "pushRingLocked e r = last_n ringSize (r @ [e])"
proof (cases "length r = ringSize")
  case True
  then have "take (ringSize - 1) (drop 1 r @ drop (length r - 1) r) = drop 1 r"
    by simp
  with True show ?thesis
    by (simp add: pushRingLocked_def last_n_def ringSize_def)
next
  case False
  with assms show ?thesis
    by (simp add: pushRingLocked_def last_n_def)
qed

lemma writeFile_frame [simp]:
  "ring (writeFileLocked env line x) = ring x" "logDir (writeFileLocked env line x) = logDir x"
  "minLevel (writeFileLocked env line x) = minLevel x" "hilog (writeFileLocked env line x) = hilog x"
  by (simp_all add: writeFileLocked_def currentFileLocked_def Let_def split: option.split)

lemma flush_entries_frame [simp]:
  "ring (flush_entries envs es x) = ring x" "logDir (flush_entries envs es x) = logDir x"
  "minLevel (flush_entries envs es x) = minLevel x" "hilog (flush_entries envs es x) = hilog x"
  by (induction es arbitrary: envs x) simp_all

lemma clean_entries_frame [simp]:
  "ring (clean_entries cenv t es x) = ring x" "logDir (clean_entries cenv t es x) = logDir x"
  "minLevel (clean_entries cenv t es x) = minLevel x" "hilog (clean_entries cenv t es x) = hilog x"
  by (induction cenv t es x rule: clean_entries.induct) (simp_all add: Remove_def Let_def split: option.split)

lemma CleanOld_frame [simp]:
  "ring (snd (CleanOld cenv d x)) = ring x" "logDir (snd (CleanOld cenv d x)) = logDir x"
  "minLevel (snd (CleanOld cenv d x)) = minLevel x" "hilog (snd (CleanOld cenv d x)) = hilog x"
  by (simp_all add: CleanOld_def Let_def split: sum.split)

text \<open>\<open>CleanOld\<close> empties exactly the files that are listed with an old enough time and can be removed.\<close>

lemma files_clean_entries:
  "files (clean_entries cenv t es x) f =
     (if fst f = logDir x \<and> remove_ok cenv (snd f) \<and> (\<exists>m. (snd f, Some m) \<in> set es \<and> m < t) then [] else files x f)"
proof (induction cenv t es x rule: clean_entries.induct)
  case (2 cenv t name mtime es x)
  show ?case
  proof (cases mtime)
    case None
    with 2 show ?thesis by auto
  next
    case (Some m)
    obtain d n where f: "f = (d, n)" by fastforce
    show ?thesis
      using "2.IH"(2) [OF Some] unfolding Some f
      by (cases "d = logDir x"; cases "n = name"; cases "m < t"; simp add: Remove_def Let_def) blast+
  qed
qed simp

lemma files_CleanOld:
  assumes "logDir x \<noteq> ''''" "listing cenv = Inr es"
  shows "fst (CleanOld cenv d x) = None"
    "files (snd (CleanOld cenv d x)) f =
     (if fst f = logDir x \<and> remove_ok cenv (snd f) \<and> (\<exists>m. (snd f, Some m) \<in> set es \<and> m < ago cenv d)
      then [] else files x f)"
  using assms by (simp_all add: CleanOld_def files_clean_entries)

datatype log_op =
    LWrite log_env int string string log_fields
  | LExternal log_env int string string
  | LSetLevel int
  | LInit log_env "nat \<Rightarrow> log_env" string
  | LClean clean_env int

fun log_apply :: "xlog \<Rightarrow> log_op \<Rightarrow> xlog" where
  "log_apply x (LWrite env l m s fs) = write_log env l m s fs x"
| "log_apply x (LExternal env l m s) = WriteExternal env l m s x"
| "log_apply x (LSetLevel l) = SetLevel l x"
| "log_apply x (LInit env envs d) = snd (Init env envs d x)"
| "log_apply x (LClean cenv d) = snd (CleanOld cenv d x)"

text \<open>Everything ever accepted: hilog has no bound.\<close>

definition ring_ok :: "xlog \<Rightarrow> bool" where
  "ring_ok x \<longleftrightarrow> length (ring x) \<le> ringSize \<and>
     map formatLine (ring x) = last_n ringSize (map snd (hilog x))"

lemma map_last_n: "map f (last_n n xs) = last_n n (map f xs)"
  by (simp add: last_n_def drop_map)

lemma ring_ok_write [inv_intros]: "ring_ok x \<Longrightarrow> ring_ok (write_log env l m s fs x)"
  by (auto simp: ring_ok_def write_log_def Let_def pushRing_last_n map_last_n last_n_snoc ringSize_def)

lemma ring_ok_Init: "ring_ok x \<Longrightarrow> ring_ok (snd (Init env envs d x))"
  by (simp add: Init_def flushRingLocked_def ring_ok_def split: option.split)

lemma ring_ok_apply: "ring_ok x \<Longrightarrow> ring_ok (log_apply x op)"
  by (cases op) (simp_all add: WriteExternal_def Let_def ring_ok_write ring_ok_Init, simp_all add: SetLevel_def ring_ok_def)

lemma ring_ok_run: "ring_ok x \<Longrightarrow> ring_ok (foldl log_apply x ops)"
  by (induction ops arbitrary: x) (simp_all add: ring_ok_apply)

section \<open>The files\<close>

text \<open>The file of the day of one reading of the clock, and what is written there when nothing fails.\<close>

definition day_file :: "string \<Rightarrow> log_env \<Rightarrow> file_id" where
  "day_file dir env = (dir, ''vpnapp_'' @ now_day env @ ''.log'')"

definition writes :: "log_env \<Rightarrow> file_id \<Rightarrow> log_line \<Rightarrow> bool" where
  "writes env f line \<longleftrightarrow> open_ok env f \<and> torn env f line = None"

text \<open>The open file, if there is one, is the file of \<open>logDay\<close> in the directory.\<close>

definition open_here :: "xlog \<Rightarrow> bool" where
  "open_here x \<longleftrightarrow> (\<forall>f. logFile x = Some f \<longrightarrow>
     f = (logDir x, ''vpnapp_'' @ logDay x @ ''.log'') \<and> \<not> unlinked x)"

lemma write_new:
  assumes "open_here x" "logDir x \<noteq> ''''" "writes env (day_file (logDir x) env) line"
  shows "open_here (writeFileLocked env line x)"
    "files (writeFileLocked env line x) =
     (files x)(day_file (logDir x) env := files x (day_file (logDir x) env) @ [Line line])"
  using assms
  by (auto simp: open_here_def writes_def day_file_def writeFileLocked_def currentFileLocked_def Let_def)

text \<open>A flush distributes the lines over the files of the days on which they are written.\<close>

definition lines_of_day :: "string \<Rightarrow> (nat \<Rightarrow> log_env) \<Rightarrow> file_id \<Rightarrow> log_line list \<Rightarrow> log_line list" where
  "lines_of_day dir envs f ls = map snd (filter (\<lambda>p. day_file dir (envs (fst p)) = f) (enumerate 0 ls))"

lemma lines_of_day_Nil [simp]: "lines_of_day dir envs f [] = []"
  by (simp add: lines_of_day_def)

lemma lines_of_day_Cons [simp]:
  "lines_of_day dir envs f (l # ls) =
     (if day_file dir (envs 0) = f then [l] else []) @ lines_of_day dir (\<lambda>i. envs (Suc i)) f ls"
proof -
  have "enumerate (Suc 0) ls = map (\<lambda>(i, l). (Suc i, l)) (enumerate 0 ls)"
    by (auto simp: enumerate_Suc_eq)
  then show ?thesis
    by (simp add: lines_of_day_def filter_map o_def case_prod_beta)
qed

lemma lines_of_day_same:
  "(\<And>i. i < length ls \<Longrightarrow> day_file dir (envs i) = g) \<Longrightarrow>
   lines_of_day dir envs f ls = (if f = g then ls else [])"
proof (induction ls arbitrary: envs)
  case (Cons l ls)
  from Cons.prems [of 0] Cons.prems [of "Suc i" for i] Cons.IH [of "\<lambda>i. envs (Suc i)"] show ?case
    by auto
qed simp

lemma files_flush_new:
  assumes "open_here x" "logDir x \<noteq> ''''"
    and "\<And>i. i < length es \<Longrightarrow> writes (envs i) (day_file (logDir x) (envs i)) (formatLine (es ! i))"
  shows "files (flush_entries envs es x) f =
    files x f @ map Line (lines_of_day (logDir x) envs f (map formatLine es))"
  using assms
proof (induction es arbitrary: envs x)
  case (Cons e es)
  have w: "writes (envs 0) (day_file (logDir x) (envs 0)) (formatLine e)"
    using Cons.prems(3) [of 0] by simp
  note n = write_new [OF Cons.prems(1,2) w]
  have "writes (envs (Suc i)) (day_file (logDir x) (envs (Suc i))) (formatLine (es ! i))" if "i < length es" for i
    using Cons.prems(3) [of "Suc i"] that by simp
  from Cons.IH [of "writeFileLocked (envs 0) (formatLine e) x" "\<lambda>i. envs (Suc i)", OF n(1) _ ] Cons.prems(2) this
  show ?case by (auto simp: n(2))
qed simp

text \<open>As long as the day is that of the open file, everything goes to that file.\<close>

lemma write_open:
  assumes "logFile x = Some f" "logDir x \<noteq> ''''" "logDay x = now_day env" "\<not> unlinked x" "torn env f line = None"
  shows "writeFileLocked env line x = x\<lparr>files := (files x)(f := files x f @ [Line line])\<rparr>"
  using assms by (simp add: writeFileLocked_def currentFileLocked_def)

lemma files_flush_open:
  assumes "logFile x = Some f" "logDir x \<noteq> ''''" "\<not> unlinked x"
    and "\<And>i. i < length es \<Longrightarrow> now_day (envs i) = logDay x \<and> torn (envs i) f (formatLine (es ! i)) = None"
  shows "files (flush_entries envs es x) = (files x)(f := files x f @ map (Line \<circ> formatLine) es)"
  using assms
proof (induction es arbitrary: envs x)
  case (Cons e es)
  let ?x = "x\<lparr>files := (files x)(f := files x f @ [Line (formatLine e)])\<rparr>"
  have "writeFileLocked (envs 0) (formatLine e) x = ?x"
    using Cons.prems(1-3) Cons.prems(4) [of 0] by (intro write_open) simp_all
  moreover have "now_day (envs (Suc i)) = logDay ?x \<and> torn (envs (Suc i)) f (formatLine (es ! i)) = None"
    if "i < length es" for i
    using Cons.prems(4) [of "Suc i"] that by simp
  ultimately show ?case
    using Cons.IH [of ?x "\<lambda>i. envs (Suc i)"] Cons.prems(1-3) by (simp add: fun_eq_iff)
qed simp

section \<open>Properties\<close>

definition demo_log_env :: log_env where
  "demo_log_env = \<lparr>now_time = ''t'', now_day = ''20260101'', mkdir_err = (\<lambda>_. None), open_ok = (\<lambda>_. True),
     torn = (\<lambda>_ _. None)\<rparr>"

text \<open>C9: the ring always holds the last thousand accepted entries, in order, whatever mixture of
  writes, level changes and initialisations produced them, and \<open>Recent\<close> returns a suffix of it of
  the size asked for.\<close>

theorem ring_holds_last:
  "let x = foldl log_apply (initial_xlog fs) ops in
   map formatLine (ring x) = last_n ringSize (map snd (hilog x)) \<and>
   map formatLine (Recent limit x) =
     last_n (if limit \<le> 0 \<or> limit > int (length (ring x)) then ringSize else nat limit) (map snd (hilog x))"
proof -
  define x where "x = foldl log_apply (initial_xlog fs) ops"
  have ok: "ring_ok x"
    unfolding x_def by (rule ring_ok_run) (simp add: ring_ok_def initial_xlog_def last_n_def)
  have "map formatLine (Recent limit x) =
     last_n (if limit \<le> 0 \<or> limit > int (length (ring x)) then ringSize else nat limit) (map snd (hilog x))"
  proof (cases "limit \<le> 0 \<or> limit > int (length (ring x))")
    case True
    then have "Recent limit x = ring x" by (simp add: Recent_def Let_def)
    with True ok show ?thesis by (simp add: ring_ok_def)
  next
    case False
    then have "Recent limit x = last_n (nat limit) (ring x)"
      by (simp add: Recent_def Let_def last_n_def)
    then have "map formatLine (Recent limit x) = last_n (nat limit) (last_n ringSize (map snd (hilog x)))"
      using ok by (simp add: ring_ok_def map_last_n)
    also have "\<dots> = last_n (nat limit) (map snd (hilog x))"
    proof (rule last_n_last_n)
      have "length (last_n ringSize (map snd (hilog x))) = length (ring x)"
        using ok by (metis length_map ring_ok_def)
      then show "nat limit \<le> length (last_n ringSize (map snd (hilog x)))"
        using False by (simp add: nat_le_iff)
    qed
    finally show ?thesis using False by simp
  qed
  with ok show ?thesis
    by (simp add: ring_ok_def x_def [symmetric] Let_def)
qed

text \<open>C28: what was logged before \<open>Init\<close> is not lost, up to the size of the ring: the first
  initialisation, when no write fails, writes the last thousand accepted entries, in order, each to the file of the day on
  which it is written, which is today's file for all of them unless midnight passes meanwhile.\<close>

theorem init_saves_ring:
  assumes "ring_ok x" "logDir x = ''''" "logFile x = None" "dir \<noteq> ''''" "mkdir_err env dir = None"
    and "ls = last_n ringSize (map snd (hilog x))"
    and "\<And>i. i < length ls \<Longrightarrow> writes (envs i) (day_file dir (envs i)) (ls ! i)"
  shows "fst (Init env envs dir x) = None \<and>
     (\<forall>f. files (snd (Init env envs dir x)) f = files x f @ map Line (lines_of_day dir envs f ls)) \<and>
     ((\<forall>i < length ls. day_file dir (envs i) = g) \<longrightarrow>
        files (snd (Init env envs dir x)) = (files x)(g := files x g @ map Line ls))"
proof -
  have ls: "ls = map formatLine (ring x)" using assms(1,6) by (simp add: ring_ok_def)
  have f: "files (snd (Init env envs dir x)) f = files x f @ map Line (lines_of_day dir envs f ls)" for f
    using files_flush_new [of "x\<lparr>logDir := dir\<rparr>" "ring x" envs f] assms(3-5,7)
    by (simp add: Init_def flushRingLocked_def open_here_def ls)
  have "files (snd (Init env envs dir x)) = (files x)(g := files x g @ map Line ls)"
    if "\<forall>i < length ls. day_file dir (envs i) = g"
  proof
    fix f
    have "lines_of_day dir envs f ls = (if f = g then ls else [])"
      using that by (intro lines_of_day_same) blast
    then show "files (snd (Init env envs dir x)) f = ((files x)(g := files x g @ map Line ls)) f"
      by (simp add: f)
  qed
  with f show ?thesis using assms(5) by (simp add: Init_def)
qed

theorem init_saves_ring_witness:
  "files (snd (Init demo_log_env (\<lambda>_. demo_log_env) ''/logs''
      (write_log demo_log_env LevelInfo ''boot'' ''up'' [] (initial_xlog (\<lambda>_. [])))))
     (''/logs'', ''vpnapp_20260101.log'') = [Line (''t I [boot] up'', [])]"
proof -
  let ?x = "write_log demo_log_env LevelInfo ''boot'' ''up'' [] (initial_xlog (\<lambda>_. []))"
  have "ring_ok ?x" by (rule ring_ok_write) (simp add: ring_ok_def initial_xlog_def last_n_def)
  then show ?thesis
    using init_saves_ring [of ?x "''/logs''" demo_log_env _ "\<lambda>_. demo_log_env" "(''/logs'', ''vpnapp_20260101.log'')"]
    by (simp add: write_log_def Let_def initial_xlog_def level_defs demo_log_env_def writeFileLocked_def
        currentFileLocked_def formatLine_def levelName_def last_n_def ringSize_def writes_def day_file_def)
qed

text \<open>C37: initialising again on the same day, when the ring still holds entries that are already in the
  file, writes them a second time (as far as the writes succeed and the file has not been removed), and to
  the file that is open: a new directory gets nothing until the day changes.\<close>

theorem second_init_duplicates:
  assumes "logFile x = Some f" "\<not> unlinked x" "dir \<noteq> ''''" "mkdir_err env dir = None"
    and "\<And>i. i < length (ring x) \<Longrightarrow> now_day (envs i) = logDay x \<and> torn (envs i) f (formatLine (ring x ! i)) = None"
  shows "files (snd (Init env envs dir x)) = (files x)(f := files x f @ map (Line \<circ> formatLine) (ring x)) \<and>
     logDir (snd (Init env envs dir x)) = dir"
  using files_flush_open [of "x\<lparr>logDir := dir\<rparr>" f "ring x" envs] assms
  by (simp add: Init_def flushRingLocked_def)

theorem second_init_duplicates_witness:
  "files (snd (Init demo_log_env (\<lambda>_. demo_log_env) ''/new'' (write_log demo_log_env LevelInfo ''m'' ''x'' []
      (snd (Init demo_log_env (\<lambda>_. demo_log_env) ''/old'' (initial_xlog (\<lambda>_. [])))))))
     (''/old'', ''vpnapp_20260101.log'') = [Line (''t I [m] x'', []), Line (''t I [m] x'', [])]"
  using second_init_duplicates [of "write_log demo_log_env LevelInfo ''m'' ''x'' []
      (snd (Init demo_log_env (\<lambda>_. demo_log_env) ''/old'' (initial_xlog (\<lambda>_. []))))"
      "(''/old'', ''vpnapp_20260101.log'')" "''/new''" demo_log_env "\<lambda>_. demo_log_env"]
  by (simp add: write_log_def Let_def initial_xlog_def level_defs demo_log_env_def writeFileLocked_def
      currentFileLocked_def formatLine_def levelName_def Init_def flushRingLocked_def pushRingLocked_def ringSize_def)

end
