(* ===== verification/Core_Instance.thy ===== *)
theory Core_Instance
  imports Prelude "HOL-Library.Multiset"
begin

text \<open>
  \<open>core/xray.go\<close>: the Xray instance, its features and the callbacks that wait for them. A feature
  \<open>'f\<close> is what implements \<open>features.Feature\<close>; its Go code is the environment \<open>feature_env\<close>: the type
  it declares (\<open>reflect.TypeOf(f.Type())\<close>), the interfaces its value can be passed as, and whether
  \<open>Start\<close>, \<open>Close\<close> and a callback fail; \<open>inboundType\<close> and \<open>outboundType\<close> are the types of the two handler
  managers. A callback is known by its parameter types \<open>'t list\<close>, a name \<open>'c\<close> and the callbacks it
  registers itself when it runs (as those of \<open>app/dispatcher/default.go\<close> and \<open>proxy/dns/dns.go\<close> do, which
  drop the results); the effects of the instance on its features and callbacks are the list \<open>events\<close>.
\<close>

record ('f, 't, 'c) feature_env =
  Type :: "'f \<Rightarrow> 't"
  assignable :: "'f \<Rightarrow> 't \<Rightarrow> bool"
  start_err :: "'f \<Rightarrow> string option"
  close_err :: "'f \<Rightarrow> string option"
  callback_err :: "'c \<Rightarrow> 'f list \<Rightarrow> string option"
  inboundType :: 't
  outboundType :: 't

datatype ('f, 'c) event = Started 'f | Closed 'f | Called 'c "'f list"

text \<open>A registration is a resolution and whether it is optional.\<close>

datatype ('t, 'c) resolution =
  Resolution (deps: "'t list") (callback: 'c) (nested: "(('t, 'c) resolution \<times> bool) list")

record ('f, 't, 'c) xray =
  features :: "'f list"
  pendingResolutions :: "('t, 'c) resolution list"
  pendingOptionalResolutions :: "('t, 'c) resolution list"
  running :: bool
  events :: "('f, 'c) event list"

text \<open>A Go \<open>error\<close>, or the panic of \<open>callbackResolution\<close>.\<close>

datatype failure = Panic string | Err string

definition NewInstance :: "('f, 't, 'c) xray" where
  "NewInstance = \<lparr>features = [], pendingResolutions = [], pendingOptionalResolutions = [],
     running = False, events = []\<rparr>"

section \<open>Operations\<close>

fun getFeature :: "('f, 't, 'c) feature_env \<Rightarrow> 'f list \<Rightarrow> 't \<Rightarrow> 'f option" where
  "getFeature env [] t = None"
| "getFeature env (f # fs) t = (if Type env f = t then Some f else getFeature env fs t)"

definition GetFeature :: "('f, 't, 'c) feature_env \<Rightarrow> ('f, 't, 'c) xray \<Rightarrow> 't \<Rightarrow> 'f option" where
  "GetFeature env s t = getFeature env (features s) t"

text \<open>The loop over the parameters of the callback.\<close>

fun callback_input :: "('f, 't, 'c) feature_env \<Rightarrow> 'f list \<Rightarrow> 't list \<Rightarrow> 'f list" where
  "callback_input env fs [] = []"
| "callback_input env fs (pt # pts) =
     (case find (\<lambda>f. assignable env f pt) fs of
        None \<Rightarrow> callback_input env fs pts
      | Some f \<Rightarrow> f # callback_input env fs pts)"

definition found_all :: "('f, 't, 'c) feature_env \<Rightarrow> 'f list \<Rightarrow> ('t, 'c) resolution \<Rightarrow> bool" where
  "found_all env fs r = list_all (\<lambda>d. getFeature env fs d \<noteq> None) (deps r)"

lemma size_nested [simp]: "Suc (3 * size_list (size_prod size (\<lambda>_. 0)) (nested r)) < 3 * size r"
  by (cases r) simp

text \<open>
  \<open>callbackResolution\<close> runs a callback, which may register others on the same instance
  (\<open>register_nested\<close>) before it returns; a panic of one of those runs through it.
\<close>

function (sequential) callbackResolution ::
    "('f, 't, 'c) feature_env \<Rightarrow> ('t, 'c) resolution \<Rightarrow> ('f, 't, 'c) xray \<Rightarrow>
     ('f, 't, 'c) xray \<times> failure option"
  and register_nested ::
    "('f, 't, 'c) feature_env \<Rightarrow> (('t, 'c) resolution \<times> bool) list \<Rightarrow> ('f, 't, 'c) xray \<Rightarrow>
     ('f, 't, 'c) xray \<times> failure option"
  and RequireFeatures ::
    "('f, 't, 'c) feature_env \<Rightarrow> ('t, 'c) resolution \<Rightarrow> bool \<Rightarrow> ('f, 't, 'c) xray \<Rightarrow>
     ('f, 't, 'c) xray \<times> failure option"
where
  "callbackResolution env r s =
     (let input = callback_input env (features s) (deps r)
      in if length input \<noteq> length (deps r) then (s, Some (Panic ''Can't get all input parameters''))
         else case register_nested env (nested r) (s\<lparr>events := events s @ [Called (callback r) input]\<rparr>) of
                (s, Some (Panic m)) \<Rightarrow> (s, Some (Panic m))
              | (s, _) \<Rightarrow> (s, map_option Err (callback_err env (callback r) input)))"
| "register_nested env [] s = (s, None)"
| "register_nested env ((r, opt) # rs) s =
     (case RequireFeatures env r opt s of
        (s, Some (Panic m)) \<Rightarrow> (s, Some (Panic m))
      | (s, _) \<Rightarrow> register_nested env rs s)"
| "RequireFeatures env r optional s =
     (if found_all env (features s) r then callbackResolution env r s
      else if optional
      then (s\<lparr>pendingOptionalResolutions := pendingOptionalResolutions s @ [r]\<rparr>, None)
      else (s\<lparr>pendingResolutions := pendingResolutions s @ [r]\<rparr>, None))"
  by pat_completeness auto

termination
  by (relation "measure (\<lambda>x. case x of
        Inl (env, r, s) \<Rightarrow> 3 * size r
      | Inr (Inl (env, rs, s)) \<Rightarrow> 3 * size_list (size_prod size (\<lambda>_. 0)) rs + 1
      | Inr (Inr (env, r, opt, s)) \<Rightarrow> 3 * size r + 1)")
    (simp_all add: Let_def)

declare callbackResolution.simps [simp del] RequireFeatures.simps [simp del]

text \<open>The loop over the pending resolutions: the available ones and those that stay.\<close>

fun sort_resolutions :: "('f, 't, 'c) feature_env \<Rightarrow> 'f list \<Rightarrow> ('t, 'c) resolution list \<Rightarrow>
    ('t, 'c) resolution list \<times> ('t, 'c) resolution list" where
  "sort_resolutions env fs [] = ([], [])"
| "sort_resolutions env fs (r # rs) =
     (let (available, pending) = sort_resolutions env fs rs
      in if found_all env fs r then (r # available, pending) else (available, r # pending))"

text \<open>The last loop of \<open>AddFeature\<close>: a later result replaces an earlier error; a panic ends it.\<close>

fun run_callbacks :: "('f, 't, 'c) feature_env \<Rightarrow> ('t, 'c) resolution list \<Rightarrow> failure option \<Rightarrow>
    ('f, 't, 'c) xray \<Rightarrow> ('f, 't, 'c) xray \<times> failure option" where
  "run_callbacks env [] err s = (s, err)"
| "run_callbacks env (r # rs) err s =
     (case callbackResolution env r s of
        (s, Some (Panic m)) \<Rightarrow> (s, Some (Panic m))
      | (s, err) \<Rightarrow> run_callbacks env rs err s)"

definition AddFeature ::
  "('f, 't, 'c) feature_env \<Rightarrow> 'f \<Rightarrow> ('f, 't, 'c) xray \<Rightarrow> ('f, 't, 'c) xray \<times> failure option" where
  "AddFeature env f s =
     (if running s then (s\<lparr>events := events s @ [Started f]\<rparr>, None)
      else
        let fs = features s @ [f];
            (available, pending) = sort_resolutions env fs (pendingResolutions s);
            (availableOptional, pendingOptional) = sort_resolutions env fs (pendingOptionalResolutions s)
        in run_callbacks env (available @ availableOptional) None
             (s\<lparr>features := fs, pendingResolutions := pending, pendingOptionalResolutions := pendingOptional\<rparr>))"

fun start_all :: "('f, 't, 'c) feature_env \<Rightarrow> 'f list \<Rightarrow> ('f, 'c) event list \<times> string option" where
  "start_all env [] = ([], None)"
| "start_all env (f # fs) =
     (case start_err env f of
        Some e \<Rightarrow> ([Started f], Some e)
      | None \<Rightarrow> let (evs, e) = start_all env fs in (Started f # evs, e))"

definition Start :: "('f, 't, 'c) feature_env \<Rightarrow> ('f, 't, 'c) xray \<Rightarrow> ('f, 't, 'c) xray \<times> string option" where
  "Start env s =
     (let (evs, e) = start_all env (features s)
      in (s\<lparr>running := True, events := events s @ evs\<rparr>, e))"

text \<open>\<open>Close\<close> returns one error that names all the errors of the features.\<close>

definition Close_instance ::
  "('f, 't, 'c) feature_env \<Rightarrow> ('f, 't, 'c) xray \<Rightarrow> ('f, 't, 'c) xray \<times> string list option" where
  "Close_instance env s =
     (let errs = List.map_filter (close_err env) (features s)
      in (s\<lparr>running := False, events := events s @ map Closed (features s)\<rparr>,
          if errs \<noteq> [] then Some errs else None))"

subsection \<open>Making an instance\<close>

text \<open>
  What one entry of \<open>config.App\<close> does: its settings cannot be read or the object cannot be created
  (\<open>AppFails\<close>), or the object's constructor asks the instance for features and the object is a
  feature or not.
\<close>

datatype ('f, 't, 'c) app =
    AppFails string
  | App "(('t, 'c) resolution \<times> bool) list" "'f option"

fun create_object :: "('f, 't, 'c) feature_env \<Rightarrow> (('t, 'c) resolution \<times> bool) list \<Rightarrow>
    ('f, 't, 'c) xray \<Rightarrow> ('f, 't, 'c) xray \<times> failure option" where
  "create_object env [] s = (s, None)"
| "create_object env ((r, opt) # rs) s =
     (case RequireFeatures env r opt s of
        (s, Some e) \<Rightarrow> (s, Some e)
      | (s, None) \<Rightarrow> create_object env rs s)"

fun add_apps :: "('f, 't, 'c) feature_env \<Rightarrow> ('f, 't, 'c) app list \<Rightarrow> ('f, 't, 'c) xray \<Rightarrow>
    ('f, 't, 'c) xray \<times> failure option" where
  "add_apps env [] s = (s, None)"
| "add_apps env (AppFails e # apps) s = (s, Some (Err e))"
| "add_apps env (App reqs obj # apps) s =
     (case create_object env reqs s of
        (s, Some e) \<Rightarrow> (s, Some e)
      | (s, None) \<Rightarrow>
          (case obj of
             None \<Rightarrow> add_apps env apps s
           | Some f \<Rightarrow>
               (case AddFeature env f s of
                  (s, Some e) \<Rightarrow> (s, Some e)
                | (s, None) \<Rightarrow> add_apps env apps s)))"

fun add_essentials :: "('f, 't, 'c) feature_env \<Rightarrow> ('t \<times> 'f) list \<Rightarrow> ('f, 't, 'c) xray \<Rightarrow>
    ('f, 't, 'c) xray \<times> failure option" where
  "add_essentials env [] s = (s, None)"
| "add_essentials env ((t, f) # es) s =
     (if GetFeature env s t = None
      then case AddFeature env f s of
             (s, Some e) \<Rightarrow> (s, Some e)
           | (s, None) \<Rightarrow> add_essentials env es s
      else add_essentials env es s)"

text \<open>
  A configured handler: \<open>CreateObject\<close> runs its constructor, which asks the instance for features and may
  fail otherwise (\<open>hc_error\<close>); then it is a handler of the right kind or not, and its manager takes it or
  not (\<open>hc_refused\<close>).
\<close>

record ('t, 'c) handler_config =
  hc_requires :: "(('t, 'c) resolution \<times> bool) list"
  hc_error :: "string option"
  hc_handler :: bool
  hc_refused :: "string option"

definition AddInboundHandler :: "('f, 't, 'c) feature_env \<Rightarrow> ('t, 'c) handler_config \<Rightarrow>
    ('f, 't, 'c) xray \<Rightarrow> ('f, 't, 'c) xray \<times> failure option" where
  "AddInboundHandler env hc s =
     (case GetFeature env s (inboundType env) of
        None \<Rightarrow> (s, Some (Panic ''interface conversion: interface is nil, not inbound.Manager''))
      | Some m \<Rightarrow>
          if \<not> assignable env m (inboundType env)
          then (s, Some (Panic ''interface conversion: not inbound.Manager''))
          else case create_object env (hc_requires hc) s of
                 (s, Some e) \<Rightarrow> (s, Some e)
               | (s, None) \<Rightarrow>
                   (case hc_error hc of
                      Some e \<Rightarrow> (s, Some (Err e))
                    | None \<Rightarrow> if \<not> hc_handler hc then (s, Some (Err ''not an InboundHandler''))
                              else (s, map_option Err (hc_refused hc))))"

fun addInboundHandlers :: "('f, 't, 'c) feature_env \<Rightarrow> ('t, 'c) handler_config list \<Rightarrow>
    ('f, 't, 'c) xray \<Rightarrow> ('f, 't, 'c) xray \<times> failure option" where
  "addInboundHandlers env [] s = (s, None)"
| "addInboundHandlers env (hc # hcs) s =
     (case AddInboundHandler env hc s of
        (s, Some e) \<Rightarrow> (s, Some e)
      | (s, None) \<Rightarrow> addInboundHandlers env hcs s)"

definition AddOutboundHandler :: "('f, 't, 'c) feature_env \<Rightarrow> ('t, 'c) handler_config \<Rightarrow>
    ('f, 't, 'c) xray \<Rightarrow> ('f, 't, 'c) xray \<times> failure option" where
  "AddOutboundHandler env hc s =
     (case GetFeature env s (outboundType env) of
        None \<Rightarrow> (s, Some (Panic ''interface conversion: interface is nil, not outbound.Manager''))
      | Some m \<Rightarrow>
          if \<not> assignable env m (outboundType env)
          then (s, Some (Panic ''interface conversion: not outbound.Manager''))
          else case create_object env (hc_requires hc) s of
                 (s, Some e) \<Rightarrow> (s, Some e)
               | (s, None) \<Rightarrow>
                   (case hc_error hc of
                      Some e \<Rightarrow> (s, Some (Err e))
                    | None \<Rightarrow> if \<not> hc_handler hc then (s, Some (Err ''not an OutboundHandler''))
                              else (s, map_option Err (hc_refused hc))))"

fun addOutboundHandlers :: "('f, 't, 'c) feature_env \<Rightarrow> ('t, 'c) handler_config list \<Rightarrow>
    ('f, 't, 'c) xray \<Rightarrow> ('f, 't, 'c) xray \<times> failure option" where
  "addOutboundHandlers env [] s = (s, None)"
| "addOutboundHandlers env (hc # hcs) s =
     (case AddOutboundHandler env hc s of
        (s, Some e) \<Rightarrow> (s, Some e)
      | (s, None) \<Rightarrow> addOutboundHandlers env hcs s)"

record ('f, 't, 'c) config =
  c_App :: "('f, 't, 'c) app list"
  c_Inbound :: "('t, 'c) handler_config list"
  c_Outbound :: "('t, 'c) handler_config list"

text \<open>
  \<open>essentials\<close> lists the types and default instances of the code (DNS client, policy manager,
  router, statistics manager). The registration of the DNS client with the system dialer is left out.
\<close>

definition initInstanceWithConfig ::
  "('f, 't, 'c) feature_env \<Rightarrow> ('t \<times> 'f) list \<Rightarrow> ('f, 't, 'c) config \<Rightarrow>
   ('f, 't, 'c) xray \<Rightarrow> ('f, 't, 'c) xray \<times> failure option" where
  "initInstanceWithConfig env essentials config s =
     (case add_apps env (c_App config) s of
        (s, Some e) \<Rightarrow> (s, Some e)
      | (s, None) \<Rightarrow>
          (case add_essentials env essentials s of
             (s, Some e) \<Rightarrow> (s, Some e)
           | (s, None) \<Rightarrow>
               if pendingResolutions s \<noteq> [] then (s, Some (Err ''not all dependencies are resolved.''))
               else case addInboundHandlers env (c_Inbound config) s of
                      (s, Some e) \<Rightarrow> (s, Some e)
                    | (s, None) \<Rightarrow> addOutboundHandlers env (c_Outbound config) s))"

definition New :: "('f, 't, 'c) feature_env \<Rightarrow> ('t \<times> 'f) list \<Rightarrow> ('f, 't, 'c) config \<Rightarrow>
    failure + ('f, 't, 'c) xray" where
  "New env essentials config =
     (case initInstanceWithConfig env essentials config NewInstance of
        (s, Some e) \<Rightarrow> Inl e
      | (s, None) \<Rightarrow> Inr s)"

section \<open>Resolution\<close>

text \<open>Every feature can be passed as the type it declares: the contract of \<open>common.HasType\<close>.\<close>

definition honest :: "('f, 't, 'c) feature_env \<Rightarrow> bool" where
  "honest env \<longleftrightarrow> (\<forall>f. assignable env f (Type env f))"

lemma getFeature_None: "getFeature env fs t = None \<longleftrightarrow> t \<notin> Type env ` set fs"
  by (induction fs) auto

lemma getFeature_Some: "getFeature env fs t = Some f \<Longrightarrow> f \<in> set fs \<and> Type env f = t"
  by (induction fs) (auto split: if_splits)

lemma found_all_types: "found_all env fs r \<longleftrightarrow> set (deps r) \<subseteq> Type env ` set fs"
  by (auto simp: found_all_def list_all_iff getFeature_None)

lemma found_all_append: "found_all env fs r \<Longrightarrow> found_all env (fs @ gs) r"
  by (auto simp: found_all_types)

lemma length_callback_input:
  assumes "honest env" "set ts \<subseteq> Type env ` set fs"
  shows "length (callback_input env fs ts) = length ts"
  using assms(2)
proof (induction ts)
  case (Cons t ts)
  obtain f where "f \<in> set fs" "assignable env f t"
    using Cons.prems assms(1) by (auto simp: honest_def)
  then have "find (\<lambda>f. assignable env f t) fs \<noteq> None"
    by (auto simp: find_None_iff)
  with Cons show ?case by auto
qed simp

definition call :: "('f, 't, 'c) feature_env \<Rightarrow> 'f list \<Rightarrow> ('t, 'c) resolution \<Rightarrow> ('f, 'c) event" where
  "call env fs r = Called (callback r) (callback_input env fs (deps r))"

definition call_err :: "('f, 't, 'c) feature_env \<Rightarrow> 'f list \<Rightarrow> ('t, 'c) resolution \<Rightarrow> failure option" where
  "call_err env fs r = map_option Err (callback_err env (callback r) (callback_input env fs (deps r)))"

subsection \<open>What a list of registrations runs and what it leaves waiting\<close>

lemma nested_smaller [termination_simp]: "size_list (\<lambda>p. size (fst p)) (nested r) < size r"
proof -
  have "size (fst p) \<le> size_prod size (\<lambda>_. 0) p" for p :: "('a, 'b) resolution \<times> bool"
    by (cases p) simp
  then have "size_list (\<lambda>p. size (fst p)) (nested r) \<le> size_list (size_prod size (\<lambda>_. 0)) (nested r)"
    by (intro size_list_pointwise)
  then show ?thesis by (cases r) simp
qed

fun reg_events :: "('f, 't, 'c) feature_env \<Rightarrow> 'f list \<Rightarrow> (('t, 'c) resolution \<times> bool) list \<Rightarrow>
    ('f, 'c) event list" where
  "reg_events env fs [] = []"
| "reg_events env fs ((r, opt) # rs) =
     (if found_all env fs r then call env fs r # reg_events env fs (nested r) else []) @ reg_events env fs rs"

fun reg_called :: "('f, 't, 'c) feature_env \<Rightarrow> 'f list \<Rightarrow> (('t, 'c) resolution \<times> bool) list \<Rightarrow> 'c list" where
  "reg_called env fs [] = []"
| "reg_called env fs ((r, opt) # rs) =
     (if found_all env fs r then callback r # reg_called env fs (nested r) else []) @ reg_called env fs rs"

fun reg_waits :: "('f, 't, 'c) feature_env \<Rightarrow> 'f list \<Rightarrow> bool \<Rightarrow> (('t, 'c) resolution \<times> bool) list \<Rightarrow>
    ('t, 'c) resolution list" where
  "reg_waits env fs b [] = []"
| "reg_waits env fs b ((r, opt) # rs) =
     (if found_all env fs r then reg_waits env fs b (nested r) else if opt = b then [r] else []) @
     reg_waits env fs b rs"

definition registered_on :: "('f, 't, 'c) feature_env \<Rightarrow> (('t, 'c) resolution \<times> bool) list \<Rightarrow>
    ('f, 't, 'c) xray \<Rightarrow> ('f, 't, 'c) xray" where
  "registered_on env rs s = s\<lparr>events := events s @ reg_events env (features s) rs,
     pendingResolutions := pendingResolutions s @ reg_waits env (features s) False rs,
     pendingOptionalResolutions := pendingOptionalResolutions s @ reg_waits env (features s) True rs\<rparr>"

lemma registered_on_Nil [simp]: "registered_on env [] s = s"
  by (simp add: registered_on_def)

lemma registered_on_frame [simp]:
  "features (registered_on env rs s) = features s" "running (registered_on env rs s) = running s"
  "pendingResolutions (registered_on env rs s) = pendingResolutions s @ reg_waits env (features s) False rs"
  by (simp_all add: registered_on_def)

lemma registered_on_Cons:
  "registered_on env (q # rs) s = registered_on env rs (registered_on env [q] s)"
  by (cases q) (simp add: registered_on_def)

lemma registered_on_append:
  "registered_on env (rs @ qs) s = registered_on env qs (registered_on env rs s)"
  by (induction rs arbitrary: s) (simp, metis append_Cons registered_on_Cons)

lemma registered_on_found:
  "found_all env (features s) r \<Longrightarrow> registered_on env [(r, opt)] s =
    registered_on env (nested r) (s\<lparr>events := events s @ [call env (features s) r]\<rparr>)"
  by (simp add: registered_on_def)

lemma reg_append [simp]:
  "reg_events env fs (rs @ qs) = reg_events env fs rs @ reg_events env fs qs"
  "reg_called env fs (rs @ qs) = reg_called env fs rs @ reg_called env fs qs"
  "reg_waits env fs b (rs @ qs) = reg_waits env fs b rs @ reg_waits env fs b qs"
  by (induction rs) auto

text \<open>Every registration has its effect, and none of it panics.\<close>

lemma callbackResolution_found:
  assumes "honest env" "found_all env (features s) r"
    and "\<And>s'. features s' = features s \<Longrightarrow>
      register_nested env (nested r) s' = (registered_on env (nested r) s', None)"
  shows "callbackResolution env r s = (registered_on env [(r, opt)] s, call_err env (features s) r)"
  using length_callback_input [OF assms(1)] assms(2,3)
  by (simp add: callbackResolution.simps Let_def found_all_types call_def call_err_def registered_on_found)

lemma register_nested_spec:
  assumes "honest env"
  shows "register_nested env rs s = (registered_on env rs s, None)"
  using assms
proof (induction env "features s" rs arbitrary: s rule: reg_events.induct)
  case (2 env r opt rs)
  show ?case
  proof (cases "found_all env (features s) r")
    case True
    have c: "callbackResolution env r s = (registered_on env [(r, opt)] s, call_err env (features s) r)"
      using "2.prems" True by (rule callbackResolution_found) (rule "2.hyps"(1), use True "2.prems" in simp_all)
    have rs: "register_nested env rs s' = (registered_on env rs s', None)" if "features s' = features s" for s'
      using "2.hyps"(2) [of s'] that "2.prems" by simp
    have "RequireFeatures env r opt s = (registered_on env [(r, opt)] s, call_err env (features s) r)"
      using True c by (simp add: RequireFeatures.simps)
    then have "register_nested env ((r, opt) # rs) s = register_nested env rs (registered_on env [(r, opt)] s)"
      by (cases "call_err env (features s) r") (auto simp: call_err_def)
    also have "\<dots> = (registered_on env ((r, opt) # rs) s, None)"
      by (simp add: rs registered_on_Cons [of env "(r, opt)" rs s])
    finally show ?thesis .
  next
    case False
    have "RequireFeatures env r opt s = (registered_on env [(r, opt)] s, None)"
      using False by (simp add: RequireFeatures.simps) (simp add: registered_on_def)
    then have "register_nested env ((r, opt) # rs) s = register_nested env rs (registered_on env [(r, opt)] s)"
      by simp
    also have "\<dots> = (registered_on env ((r, opt) # rs) s, None)"
      using "2.hyps"(2) "2.prems" by (simp add: registered_on_Cons [of env "(r, opt)" rs s])
    finally show ?thesis .
  qed
qed simp

lemma RequireFeatures_spec:
  assumes "honest env"
  shows "RequireFeatures env r opt s =
    (registered_on env [(r, opt)] s, if found_all env (features s) r then call_err env (features s) r else None)"
  using callbackResolution_found [OF assms _ register_nested_spec [OF assms], of s r opt]
  by (simp add: RequireFeatures.simps) (simp add: registered_on_def)

lemma sort_resolutions_filter:
  "sort_resolutions env fs rs = (filter (found_all env fs) rs, filter (\<lambda>r. \<not> found_all env fs r) rs)"
  by (induction rs) auto

text \<open>All the available callbacks run, in order, and the result is that of the last one.\<close>

lemma run_callbacks_spec:
  assumes "honest env" "list_all (found_all env (features s)) rs"
  shows "run_callbacks env rs err s =
    (registered_on env (map (\<lambda>r. (r, False)) rs) s,
     if rs = [] then err else call_err env (features s) (last rs))"
  using assms(2)
proof (induction rs arbitrary: s err)
  case (Cons r rs)
  let ?s = "registered_on env [(r, False)] s"
  have c: "callbackResolution env r s = (?s, call_err env (features s) r)"
    using Cons.prems by (intro callbackResolution_found [OF assms(1) _ register_nested_spec [OF assms(1)]]) simp
  have "run_callbacks env (r # rs) err s = run_callbacks env rs (call_err env (features s) r) ?s"
    using c by (cases "callback_err env (callback r) (callback_input env (features s) (deps r))")
      (auto simp: call_err_def)
  then show ?case
    using Cons.IH [of ?s "call_err env (features s) r"] Cons.prems
    by (simp add: registered_on_Cons [of env "(r, False)" "map (\<lambda>r. (r, False)) rs"])
qed simp

definition available :: "('f, 't, 'c) feature_env \<Rightarrow> 'f list \<Rightarrow> ('f, 't, 'c) xray \<Rightarrow>
    ('t, 'c) resolution list" where
  "available env fs s =
     filter (found_all env fs) (pendingResolutions s) @ filter (found_all env fs) (pendingOptionalResolutions s)"

text \<open>The callbacks that an added feature makes available, as registrations.\<close>

definition made_available :: "('f, 't, 'c) feature_env \<Rightarrow> 'f list \<Rightarrow> ('f, 't, 'c) xray \<Rightarrow>
    (('t, 'c) resolution \<times> bool) list" where
  "made_available env fs s = map (\<lambda>r. (r, False)) (available env fs s)"

lemma AddFeature_spec:
  assumes "honest env" "\<not> running s"
  shows "AddFeature env f s =
    (let fs = features s @ [f] in
     (registered_on env (made_available env fs s)
       (s\<lparr>features := fs,
          pendingResolutions := filter (\<lambda>r. \<not> found_all env fs r) (pendingResolutions s),
          pendingOptionalResolutions := filter (\<lambda>r. \<not> found_all env fs r) (pendingOptionalResolutions s)\<rparr>),
      if available env fs s = [] then None else call_err env fs (last (available env fs s))))"
proof -
  let ?fs = "features s @ [f]"
  let ?s = "s\<lparr>features := ?fs,
        pendingResolutions := filter (\<lambda>r. \<not> found_all env ?fs r) (pendingResolutions s),
        pendingOptionalResolutions := filter (\<lambda>r. \<not> found_all env ?fs r) (pendingOptionalResolutions s)\<rparr>"
  have "list_all (found_all env (features ?s)) (available env ?fs s)"
    by (auto simp: available_def list_all_iff)
  from run_callbacks_spec [OF assms(1) this, of None] assms(2) show ?thesis
    by (simp add: AddFeature_def Let_def sort_resolutions_filter available_def [symmetric] made_available_def)
qed

subsection \<open>Any sequence of registrations\<close>

datatype ('f, 't, 'c) reg_op = Require "('t, 'c) resolution" bool | Add 'f

fun reg_apply :: "('f, 't, 'c) feature_env \<Rightarrow> ('f, 't, 'c) xray \<Rightarrow> ('f, 't, 'c) reg_op \<Rightarrow>
    ('f, 't, 'c) xray" where
  "reg_apply env s (Require r opt) = fst (RequireFeatures env r opt s)"
| "reg_apply env s (Add f) = fst (AddFeature env f s)"

definition added :: "('f, 't, 'c) reg_op list \<Rightarrow> 'f list" where
  "added ops = List.map_filter (\<lambda>op. case op of Add f \<Rightarrow> Some f | _ \<Rightarrow> None) ops"

definition required :: "bool \<Rightarrow> ('f, 't, 'c) reg_op list \<Rightarrow> ('t, 'c) resolution list" where
  "required opt ops = List.map_filter
     (\<lambda>op. case op of Require r b \<Rightarrow> if b = opt then Some r else None | _ \<Rightarrow> None) ops"

lemma added_simps [simp]:
  "added [] = []" "added (ops @ [Require r b]) = added ops" "added (ops @ [Add f]) = added ops @ [f]"
  by (simp_all add: added_def List.map_filter_def)

lemma required_simps [simp]:
  "required opt [] = []" "required opt (ops @ [Add f]) = required opt ops"
  "required opt (ops @ [Require r b]) = required opt ops @ (if b = opt then [r] else [])"
  by (simp_all add: required_def List.map_filter_def)

fun called_by :: "('f, 'c) event \<Rightarrow> 'c option" where
  "called_by (Called c _) = Some c"
| "called_by _ = None"

definition called :: "('f, 't, 'c) xray \<Rightarrow> 'c list" where
  "called s = List.map_filter called_by (events s)"

lemma map_filter_append: "List.map_filter f (xs @ ys) = List.map_filter f xs @ List.map_filter f ys"
  by (simp add: List.map_filter_def)

text \<open>The registrations of a run, in order, each with whether it is optional.\<close>

definition registrations :: "('f, 't, 'c) reg_op list \<Rightarrow> (('t, 'c) resolution \<times> bool) list" where
  "registrations ops = List.map_filter (\<lambda>op. case op of Require r b \<Rightarrow> Some (r, b) | _ \<Rightarrow> None) ops"

lemma registrations_simps [simp]:
  "registrations [] = []" "registrations (ops @ [Add f]) = registrations ops"
  "registrations (ops @ [Require r b]) = registrations ops @ [(r, b)]"
  by (simp_all add: registrations_def List.map_filter_def)

lemma called_reg_events [simp]: "List.map_filter called_by (reg_events env fs rs) = reg_called env fs rs"
  by (induction env fs rs rule: reg_events.induct) (simp_all add: List.map_filter_def call_def)

lemma called_registered_on [simp]:
  "called (registered_on env rs s) = called s @ reg_called env (features s) rs"
  by (simp add: called_def registered_on_def map_filter_append)

text \<open>
  Adding a feature later: what waited is run then, with the callbacks it registers, and the rest keeps
  waiting, as if all the features had been there from the start.
\<close>

definition now_run :: "('f, 't, 'c) feature_env \<Rightarrow> 'f list \<Rightarrow> ('t, 'c) resolution list \<Rightarrow>
    (('t, 'c) resolution \<times> bool) list" where
  "now_run env gs rs = map (\<lambda>r. (r, False)) (filter (found_all env gs) rs)"

lemma now_run_simps [simp]:
  "now_run env gs [] = []" "now_run env gs (rs @ qs) = now_run env gs rs @ now_run env gs qs"
  "now_run env gs (r # rs) = (if found_all env gs r then [(r, False)] else []) @ now_run env gs rs"
  by (simp_all add: now_run_def)

lemma reg_induct [case_names Nil Cons]:
  assumes "P []" "\<And>r opt rs. P (nested r) \<Longrightarrow> P rs \<Longrightarrow> P ((r, opt) # rs)"
  shows "P rs"
proof (induction rs rule: measure_induct_rule [of "size_list (\<lambda>p. size (fst p))"])
  case (less rs)
  show ?case
  proof (cases rs)
    case Nil
    with assms(1) show ?thesis by simp
  next
    case (Cons q qs)
    obtain r opt where q: "q = (r, opt)" by fastforce
    have "P (nested r)" "P qs"
      using nested_smaller [of r] by (intro less; simp add: Cons q)+
    with assms(2) Cons q show ?thesis by simp
  qed
qed

lemma reg_called_later:
  assumes "\<And>r. found_all env fs r \<Longrightarrow> found_all env gs r"
  shows "mset (reg_called env gs rs) = mset (reg_called env fs rs) +
    mset (reg_called env gs (now_run env gs (reg_waits env fs False rs) @ now_run env gs (reg_waits env fs True rs)))"
proof (induction rs rule: reg_induct)
  case (Cons r opt rs)
  show ?case
  proof (cases "found_all env fs r")
    case True
    with assms have "found_all env gs r" by blast
    with True Cons show ?thesis by (simp add: ac_simps)
  next
    case False
    with Cons(2) show ?thesis by (cases "found_all env gs r"; cases opt) (simp_all add: ac_simps)
  qed
qed simp

lemma reg_waits_later:
  assumes "\<And>r. found_all env fs r \<Longrightarrow> found_all env gs r"
  shows "mset (reg_waits env gs b rs) =
    mset (filter (\<lambda>r. \<not> found_all env gs r) (reg_waits env fs b rs)) +
    mset (reg_waits env gs b (now_run env gs (reg_waits env fs False rs) @ now_run env gs (reg_waits env fs True rs)))"
proof (induction rs rule: reg_induct)
  case (Cons r opt rs)
  show ?case
  proof (cases "found_all env fs r")
    case True
    with assms have "found_all env gs r" by blast
    with True Cons show ?thesis by (simp add: ac_simps)
  next
    case False
    then show ?thesis
      by (cases "found_all env gs r"; cases opt; cases b) (use Cons(2) in \<open>simp_all add: ac_simps\<close>)
  qed
qed simp

definition settled :: "('f, 't, 'c) feature_env \<Rightarrow> ('f, 't, 'c) reg_op list \<Rightarrow> ('f, 't, 'c) xray \<Rightarrow> bool" where
  "settled env ops s \<longleftrightarrow>
     features s = added ops \<and> \<not> running s \<and>
     mset (pendingResolutions s) = mset (reg_waits env (added ops) False (registrations ops)) \<and>
     mset (pendingOptionalResolutions s) = mset (reg_waits env (added ops) True (registrations ops)) \<and>
     mset (called s) = mset (reg_called env (added ops) (registrations ops))"

lemma made_available_now_run:
  "made_available env gs s = now_run env gs (pendingResolutions s) @ now_run env gs (pendingOptionalResolutions s)"
  by (simp add: made_available_def available_def now_run_def)

lemma mset_now_run:
  "mset rs = mset qs \<Longrightarrow> mset (now_run env gs rs) = mset (now_run env gs qs)"
  by (simp add: now_run_def)

text \<open>What a list of registrations runs and leaves does not depend on their order.\<close>

lemma reg_called_mset: "mset rs = mset qs \<Longrightarrow> mset (reg_called env gs rs) = mset (reg_called env gs qs)"
proof -
  have "mset (reg_called env gs rs) = (\<Sum>q \<in># mset rs. mset (reg_called env gs [q]))" for rs
    by (induction rs) auto
  then show "mset rs = mset qs \<Longrightarrow> mset (reg_called env gs rs) = mset (reg_called env gs qs)" by metis
qed

lemma reg_waits_mset: "mset rs = mset qs \<Longrightarrow> mset (reg_waits env gs b rs) = mset (reg_waits env gs b qs)"
proof -
  have "mset (reg_waits env gs b rs) = (\<Sum>q \<in># mset rs. mset (reg_waits env gs b [q]))" for rs
    by (induction rs) auto
  then show "mset rs = mset qs \<Longrightarrow> mset (reg_waits env gs b rs) = mset (reg_waits env gs b qs)" by metis
qed

lemma settled_step:
  assumes "honest env" "settled env ops s"
  shows "settled env (ops @ [op]) (reg_apply env s op)"
proof (cases op)
  case (Require r opt)
  with assms show ?thesis
    by (simp add: settled_def RequireFeatures_spec) (simp add: registered_on_def)
next
  case (Add f)
  let ?fs = "added ops" and ?gs = "added ops @ [f]"
  let ?R = "registrations ops"
  let ?now = "now_run env ?gs (reg_waits env ?fs False ?R) @ now_run env ?gs (reg_waits env ?fs True ?R)"
  have later: "\<And>r. found_all env ?fs r \<Longrightarrow> found_all env ?gs r" by (rule found_all_append)
  have "mset (now_run env ?gs (pendingResolutions s)) = mset (now_run env ?gs (reg_waits env ?fs False ?R))"
    "mset (now_run env ?gs (pendingOptionalResolutions s)) = mset (now_run env ?gs (reg_waits env ?fs True ?R))"
    using assms(2) by (auto intro!: mset_now_run simp: settled_def)
  then have now: "mset (made_available env ?gs s) = mset ?now"
    by (simp only: made_available_now_run mset_append)
  have filt: "mset (filter P (pendingResolutions s)) = mset (filter P (reg_waits env ?fs False ?R))"
    "mset (filter P (pendingOptionalResolutions s)) = mset (filter P (reg_waits env ?fs True ?R))" for P
    using assms(2) by (simp_all add: settled_def)
  have gs: "features s @ [f] = ?gs" "\<not> running s" using assms(2) by (simp_all add: settled_def)
  define s' where "s' = reg_apply env s op"
  have s': "s' = registered_on env (made_available env ?gs s)
       (s\<lparr>features := ?gs,
          pendingResolutions := filter (\<lambda>r. \<not> found_all env ?gs r) (pendingResolutions s),
          pendingOptionalResolutions := filter (\<lambda>r. \<not> found_all env ?gs r) (pendingOptionalResolutions s)\<rparr>)"
    using Add AddFeature_spec [OF assms(1) gs(2), of f] gs(1) by (simp add: s'_def Let_def)
  have p: "pendingResolutions s' = filter (\<lambda>r. \<not> found_all env ?gs r) (pendingResolutions s) @
        reg_waits env ?gs False (made_available env ?gs s)"
    "pendingOptionalResolutions s' = filter (\<lambda>r. \<not> found_all env ?gs r) (pendingOptionalResolutions s) @
        reg_waits env ?gs True (made_available env ?gs s)"
    "called s' = called s @ reg_called env ?gs (made_available env ?gs s)"
    unfolding s' by (simp_all add: registered_on_def called_def map_filter_append)
  have w: "mset (reg_waits env ?gs b ?R) = mset (filter (\<lambda>r. \<not> found_all env ?gs r) (reg_waits env ?fs b ?R)) +
      mset (reg_waits env ?gs b (made_available env ?gs s))" for b
    by (rule trans [OF reg_waits_later [OF later]]) (auto simp only: reg_waits_mset [OF now])
  have "mset (pendingResolutions s') = mset (reg_waits env ?gs False ?R)"
    "mset (pendingOptionalResolutions s') = mset (reg_waits env ?gs True ?R)"
    by (simp_all only: p w mset_append filt)
  moreover have "mset (called s') = mset (reg_called env ?gs ?R)"
    using assms(2) reg_called_later [OF later, where rs = ?R]
    by (simp only: p mset_append settled_def reg_called_mset [OF now])
  moreover have "features s' = ?gs" "\<not> running s'" unfolding s' using gs(2) by simp_all
  ultimately show ?thesis unfolding settled_def s'_def [symmetric] using Add by simp
qed

lemma settled_run: "honest env \<Longrightarrow> settled env ops (foldl (reg_apply env) NewInstance ops)"
proof (induction ops rule: rev_induct)
  case Nil
  then show ?case by (simp add: settled_def NewInstance_def called_def List.map_filter_def)
next
  case (snoc op ops)
  then show ?case by (simp add: settled_step)
qed

subsection \<open>Callbacks that register nothing\<close>

definition flat :: "(('t, 'c) resolution \<times> bool) list \<Rightarrow> bool" where
  "flat rs \<longleftrightarrow> (\<forall>(r, b) \<in> set rs. nested r = [])"

lemma flat_reg:
  assumes "flat rs"
  shows "reg_waits env fs b rs = filter (\<lambda>r. \<not> found_all env fs r) (map fst (filter (\<lambda>q. snd q = b) rs))"
    "reg_called env fs rs = map callback (filter (found_all env fs) (map fst rs))"
  using assms by (induction rs) (auto simp: flat_def)

lemma required_registrations:
  "required b ops = map fst (filter (\<lambda>q. snd q = b) (registrations ops))"
  by (induction ops rule: rev_induct) (simp, case_tac x, auto)

lemma flat_pending:
  assumes "honest env" "flat (registrations ops)"
  shows "pendingResolutions (foldl (reg_apply env) NewInstance ops) =
      filter (\<lambda>r. \<not> found_all env (added ops) r) (required False ops)"
    "pendingOptionalResolutions (foldl (reg_apply env) NewInstance ops) =
      filter (\<lambda>r. \<not> found_all env (added ops) r) (required True ops)"
proof -
  have "flat (registrations ops) \<Longrightarrow>
     pendingResolutions (foldl (reg_apply env) NewInstance ops) =
       filter (\<lambda>r. \<not> found_all env (added ops) r) (required False ops) \<and>
     pendingOptionalResolutions (foldl (reg_apply env) NewInstance ops) =
       filter (\<lambda>r. \<not> found_all env (added ops) r) (required True ops)"
  proof (induction ops rule: rev_induct)
    case Nil
    then show ?case by (simp add: NewInstance_def)
  next
    case (snoc op ops)
    let ?s = "foldl (reg_apply env) NewInstance ops"
    have s: "features ?s = added ops" "\<not> running ?s"
      using settled_run [OF assms(1), of ops] by (simp_all add: settled_def)
    show ?case
    proof (cases op)
      case (Require r opt)
      with snoc s show ?thesis
        by (auto simp: RequireFeatures_spec [OF assms(1)] flat_def registered_on_def)
    next
      case (Add f)
      let ?gs = "added ops @ [f]"
      have IH: "pendingResolutions ?s = filter (\<lambda>r. \<not> found_all env (added ops) r) (required False ops)"
        "pendingOptionalResolutions ?s = filter (\<lambda>r. \<not> found_all env (added ops) r) (required True ops)"
        using snoc Add by simp_all
      have "flat (made_available env ?gs ?s)"
        using snoc.prems Add IH by (auto simp: flat_def made_available_def available_def required_registrations)
      then have "reg_waits env ?gs b (made_available env ?gs ?s) = []" for b
        by (simp add: flat_reg) (auto simp: made_available_def available_def filter_empty_conv)
      moreover have "filter (\<lambda>r. \<not> found_all env ?gs r) (filter (\<lambda>r. \<not> found_all env (added ops) r) rs) =
          filter (\<lambda>r. \<not> found_all env ?gs r) rs" for rs
        using found_all_append [of env "added ops" _ "[f]"] by (induction rs) auto
      ultimately show ?thesis
        using Add IH s AddFeature_spec [OF assms(1), of ?s f]
        by (simp add: Let_def registered_on_def del: filter_filter)
    qed
  qed
  with assms(2) show "pendingResolutions (foldl (reg_apply env) NewInstance ops) =
      filter (\<lambda>r. \<not> found_all env (added ops) r) (required False ops)"
    "pendingOptionalResolutions (foldl (reg_apply env) NewInstance ops) =
      filter (\<lambda>r. \<not> found_all env (added ops) r) (required True ops)" by blast+
qed

lemma split_by_flag:
  "image_mset f (mset rs) =
     image_mset f (mset (filter (\<lambda>q. snd q = False) rs)) + image_mset f (mset (filter (\<lambda>q. snd q = True) rs))"
  by (induction rs) auto

lemma flat_called:
  assumes "flat (registrations ops)"
  shows "mset (reg_called env fs (registrations ops)) =
    image_mset callback (mset (filter (found_all env fs) (required False ops @ required True ops)))"
proof -
  have "mset (map fst (registrations ops)) = mset (required False ops @ required True ops)"
    using split_by_flag [of fst "registrations ops"] by (simp add: required_registrations)
  then have e: "mset (filter (found_all env fs) (map fst (registrations ops))) =
      mset (filter (found_all env fs) (required False ops @ required True ops))"
    by (simp only: mset_filter)
  show ?thesis
    by (simp only: flat_reg(2) [OF assms] mset_map [of callback] e)
qed

section \<open>Starting, closing, making\<close>

lemma start_all_spec:
  "start_all env fs =
     (let ok = takeWhile (\<lambda>f. start_err env f = None) fs; rest = drop (length ok) fs
      in (map Started (take (Suc (length ok)) fs),
          case rest of [] \<Rightarrow> None | f # _ \<Rightarrow> start_err env f))"
  by (induction fs) (auto simp: Let_def split: option.split)

lemma AddFeature_types:
  assumes "honest env" "\<not> running s"
  shows "features (fst (AddFeature env f s)) = features s @ [f]" "\<not> running (fst (AddFeature env f s))"
  using assms by (simp_all add: AddFeature_spec Let_def)

lemma getFeature_append:
  "getFeature env (fs @ gs) t = (case getFeature env fs t of None \<Rightarrow> getFeature env gs t | Some f \<Rightarrow> Some f)"
  by (induction fs) auto

text \<open>The features the configured apps are, in order.\<close>

definition app_features :: "('f, 't, 'c) app list \<Rightarrow> 'f list" where
  "app_features apps = List.map_filter (\<lambda>a. case a of App _ obj \<Rightarrow> obj | AppFails _ \<Rightarrow> None) apps"

lemma app_features_simps [simp]:
  "app_features [] = []" "app_features (AppFails e # apps) = app_features apps"
  "app_features (App reqs None # apps) = app_features apps"
  "app_features (App reqs (Some f) # apps) = f # app_features apps"
  by (simp_all add: app_features_def List.map_filter_def)

lemma create_object_ok:
  assumes "honest env" "create_object env rs s = (s', None)"
  shows "s' = registered_on env rs s"
  using assms(2)
proof (induction rs arbitrary: s)
  case (Cons q rs)
  obtain r opt where q: "q = (r, opt)" by fastforce
  from Cons.prems have "create_object env rs (registered_on env [q] s) = (s', None)"
    by (auto simp: q RequireFeatures_spec [OF assms(1)] split: prod.splits option.splits if_splits)
  from Cons.IH [OF this] show ?case by (simp add: registered_on_Cons [of env q rs])
qed simp

lemma add_apps_ok:
  assumes "honest env" "\<not> running s" "add_apps env apps s = (s', None)"
  shows "\<not> running s' \<and> features s' = features s @ app_features apps"
  using assms
proof (induction env apps s rule: add_apps.induct)
  case (3 env reqs obj apps s)
  obtain s1 where c: "create_object env reqs s = (s1, None)"
    using "3.prems"(3) by (auto split: prod.splits option.splits)
  have s1: "\<not> running s1" "features s1 = features s"
    using create_object_ok [OF "3.prems"(1) c] "3.prems"(2) by simp_all
  show ?case
  proof (cases obj)
    case None
    then show ?thesis
      using "3.IH"(1) [OF c [symmetric] refl None "3.prems"(1) s1(1)] "3.prems"(3) c s1(2) by simp
  next
    case (Some f)
    obtain s2 where a: "AddFeature env f s1 = (s2, None)"
      using "3.prems"(3) c Some by (auto split: prod.splits option.splits)
    have "\<not> running s2" "features s2 = features s @ [f]"
      using AddFeature_types [OF "3.prems"(1) s1(1), of f] a s1(2) by simp_all
    then show ?thesis
      using "3.IH"(2) [OF c [symmetric] refl Some a [symmetric] refl "3.prems"(1)] "3.prems"(3) c Some a by simp
  qed
qed auto

lemma add_essentials_ok:
  assumes "honest env" "\<not> running s" "add_essentials env es s = (s', None)" "\<forall>(t, f) \<in> set es. Type env f = t"
  shows "\<not> running s' \<and> (\<forall>t. GetFeature env s' t =
    (case GetFeature env s t of None \<Rightarrow> map_of es t | Some f \<Rightarrow> Some f))"
  using assms(2-4)
proof (induction es arbitrary: s)
  case Nil
  then show ?case by (auto split: option.split)
next
  case (Cons e es)
  obtain t f where e: "e = (t, f)" by fastforce
  have tf: "Type env f = t" "\<forall>(t, f) \<in> set es. Type env f = t"
    using Cons.prems(3) e by auto
  show ?case
  proof (cases "GetFeature env s t")
    case None
    obtain s1 where a: "AddFeature env f s = (s1, None)"
      using Cons.prems(2) e None by (auto split: prod.splits option.splits)
    then have s1: "\<not> running s1" "features s1 = features s @ [f]"
      using AddFeature_types [OF assms(1) Cons.prems(1), of f] by simp_all
    have "add_essentials env es s1 = (s', None)"
      using Cons.prems(2) e None a by simp
    note IH = Cons.IH [OF s1(1) this tf(2)]
    have "GetFeature env s1 u = (if u = t then Some f else GetFeature env s u)" for u
      using None tf(1) by (auto simp: GetFeature_def s1(2) getFeature_append split: option.split)
    with IH None e show ?thesis by (auto split: option.split)
  next
    case (Some g)
    then have "add_essentials env es s = (s', None)"
      using Cons.prems(2) e by auto
    from Cons.IH [OF Cons.prems(1) this tf(2)] Some e show ?thesis by (auto split: option.split)
  qed
qed

lemma addInboundHandlers_ok:
  assumes "honest env" "addInboundHandlers env hcs s = (s', None)"
  shows "s' = registered_on env (concat (map hc_requires hcs)) s \<and>
    (hcs \<noteq> [] \<longrightarrow> GetFeature env s (inboundType env) \<noteq> None)"
  using assms(2)
proof (induction hcs arbitrary: s)
  case (Cons hc hcs)
  from Cons.prems obtain s1 where a: "AddInboundHandler env hc s = (s1, None)"
      and r: "addInboundHandlers env hcs s1 = (s', None)"
    by (auto split: prod.splits option.splits)
  from a have "create_object env (hc_requires hc) s = (s1, None)" "GetFeature env s (inboundType env) \<noteq> None"
    by (auto simp: AddInboundHandler_def split: option.splits if_splits prod.splits)
  with create_object_ok [OF assms(1)] Cons.IH [OF r] show ?case
    by (simp add: registered_on_append)
qed simp

lemma addOutboundHandlers_ok:
  assumes "honest env" "addOutboundHandlers env hcs s = (s', None)"
  shows "s' = registered_on env (concat (map hc_requires hcs)) s \<and>
    (hcs \<noteq> [] \<longrightarrow> GetFeature env s (outboundType env) \<noteq> None)"
  using assms(2)
proof (induction hcs arbitrary: s)
  case (Cons hc hcs)
  from Cons.prems obtain s1 where a: "AddOutboundHandler env hc s = (s1, None)"
      and r: "addOutboundHandlers env hcs s1 = (s', None)"
    by (auto split: prod.splits option.splits)
  from a have "create_object env (hc_requires hc) s = (s1, None)" "GetFeature env s (outboundType env) \<noteq> None"
    by (auto simp: AddOutboundHandler_def split: option.splits if_splits prod.splits)
  with create_object_ok [OF assms(1)] Cons.IH [OF r] show ?case
    by (simp add: registered_on_append)
qed simp

text \<open>The features \<open>Start\<close> gets to start: all those before the first that fails.\<close>

definition started_ok :: "('f, 't, 'c) feature_env \<Rightarrow> 'f list \<Rightarrow> 'f list" where
  "started_ok env fs = takeWhile (\<lambda>f. start_err env f = None) fs"

lemma Start_spec:
  "Start env s =
    (s\<lparr>running := True,
       events := events s @ map Started (take (Suc (length (started_ok env (features s)))) (features s))\<rparr>,
     case drop (length (started_ok env (features s))) (features s) of [] \<Rightarrow> None | f # _ \<Rightarrow> start_err env f)"
  by (simp add: Start_def start_all_spec Let_def started_ok_def)

section \<open>Properties\<close>

text \<open>A small environment for the witnesses: features are pairs of a type and a name.\<close>

definition demo_env :: "(string \<times> string, string, string) feature_env" where
  "demo_env = \<lparr>Type = fst, assignable = (\<lambda>f t. fst f = t), start_err = (\<lambda>f. if snd f = ''bad'' then Some ''no'' else None),
     close_err = (\<lambda>f. None), callback_err = (\<lambda>c fs. if c = ''fails'' then Some ''init'' else None),
     inboundType = ''inbound'', outboundType = ''outbound''\<rparr>"

lemma demo_env_simps [simp]:
  "Type demo_env = fst" "assignable demo_env f t \<longleftrightarrow> fst f = t" "close_err demo_env f = None"
  "inboundType demo_env = ''inbound''" "outboundType demo_env = ''outbound''"
  "callback_err demo_env c fs = (if c = ''fails'' then Some ''init'' else None)"
  by (simp_all add: demo_env_def)

lemma honest_demo [simp]: "honest demo_env"
  by (simp add: honest_def)

text \<open>C4: in whatever order features are added and callbacks registered, a callback is run exactly
  once, as soon as all the features it asks for are there, and waits otherwise; the same holds of
  the callbacks that a callback registers when it runs. What waits are the registrations (those
  made so far, at any depth) with a missing feature, and what has run are all the others. When no
  callback registers another, what waits is in the order of registration.\<close>

theorem resolutions_exact:
  assumes "honest env" "s = foldl (reg_apply env) NewInstance ops"
  shows "features s = added ops \<and>
     mset (pendingResolutions s) = mset (reg_waits env (added ops) False (registrations ops)) \<and>
     mset (pendingOptionalResolutions s) = mset (reg_waits env (added ops) True (registrations ops)) \<and>
     mset (called s) = mset (reg_called env (added ops) (registrations ops)) \<and>
     (flat (registrations ops) \<longrightarrow>
       pendingResolutions s = filter (\<lambda>r. \<not> found_all env (added ops) r) (required False ops) \<and>
       pendingOptionalResolutions s = filter (\<lambda>r. \<not> found_all env (added ops) r) (required True ops) \<and>
       mset (called s) = image_mset callback
         (mset (filter (found_all env (added ops)) (required False ops @ required True ops))))"
  using settled_run [OF assms(1), of ops] flat_pending [OF assms(1), of ops]
    flat_called [of ops env "added ops"] unfolding assms(2) settled_def by simp

theorem resolutions_exact_witness:
  "called (foldl (reg_apply demo_env) NewInstance
     [Require (Resolution [''dns'', ''router''] ''x'' []) False, Add (''router'', ''r''),
      Require (Resolution [''policy''] ''y'' []) False, Add (''dns'', ''d'')]) = [''x''] \<and>
   mset (called (foldl (reg_apply demo_env) NewInstance
     [Require (Resolution [''dns''] ''x'' [(Resolution [''fake''] ''z'' [], True)]) False, Add (''dns'', ''d''),
      Add (''fake'', ''f'')])) = {#''x'', ''z''#}"
  (is "called (foldl _ _ ?a) = _ \<and> mset (called (foldl _ _ ?b)) = _")
proof -
  have a: "added ?a = [(''router'', ''r''), (''dns'', ''d'')]"
    "registrations ?a = [(Resolution [''dns'', ''router''] ''x'' [], False), (Resolution [''policy''] ''y'' [], False)]"
    by (simp_all add: added_def registrations_def map_filter_simps)
  have b: "added ?b = [(''dns'', ''d''), (''fake'', ''f'')]"
    "registrations ?b = [(Resolution [''dns''] ''x'' [(Resolution [''fake''] ''z'' [], True)], False)]"
    by (simp_all add: added_def registrations_def map_filter_simps)
  show ?thesis
    using resolutions_exact [OF honest_demo refl, of ?a] resolutions_exact [OF honest_demo refl, of ?b]
    unfolding a b by (simp add: found_all_types del: reg_apply.simps foldl_Cons)
qed

text \<open>C33: adding a feature runs every callback that becomes available, each followed by what it registers
  that can run, even after one has failed, and reports the error of the last one only: a failure
  that is not the last is lost.\<close>

theorem add_feature_error:
  assumes "honest env" "\<not> running s" "AddFeature env f s = (s', e)"
  shows "events s' = events s @ concat (map (\<lambda>r. call env (features s @ [f]) r #
             reg_events env (features s @ [f]) (nested r)) (available env (features s @ [f]) s)) \<and>
     e = (if available env (features s @ [f]) s = [] then None
          else call_err env (features s @ [f]) (last (available env (features s @ [f]) s)))"
proof -
  have "reg_events env fs (map (\<lambda>r. (r, False)) rs) = concat (map (\<lambda>r. call env fs r # reg_events env fs (nested r)) rs)"
    if "list_all (found_all env fs) rs" for fs rs
    using that by (induction rs) simp_all
  moreover have "list_all (found_all env (features s @ [f])) (available env (features s @ [f]) s)"
    by (auto simp: available_def list_all_iff)
  ultimately show ?thesis
    using AddFeature_spec [OF assms(1,2), of f] assms(3)
    by (auto simp: Let_def registered_on_def made_available_def)
qed

theorem add_feature_error_witness:
  "snd (AddFeature demo_env (''dns'', ''d'')
     (NewInstance\<lparr>pendingResolutions := [Resolution [''dns''] ''fails'' [], Resolution [''dns''] ''ok'' []]\<rparr>))
   = None"
  using add_feature_error [OF honest_demo _ prod.collapse [symmetric],
      of "NewInstance\<lparr>pendingResolutions := [Resolution [''dns''] ''fails'' [], Resolution [''dns''] ''ok'' []]\<rparr>"
        "(''dns'', ''d'')"]
  by (simp add: NewInstance_def available_def found_all_types call_err_def)

text \<open>C21: an instance that is made is not running and offers for every type what the configuration's
  first app of that type is, or else the default of that essential type. No callback that an app requires is
  waiting; but a callback that the constructor of a handler requires is not checked: it runs if
  its features are there and otherwise is left waiting, in an instance that counts as well made. A
  handler is configured only where its manager is.\<close>

theorem new_instance_sound:
  assumes "honest env" "\<forall>(t, f) \<in> set essentials. Type env f = t"
    and "New env essentials config = Inr s"
  shows "\<not> running s \<and>
     (\<forall>t. GetFeature env s t =
        (case getFeature env (app_features (c_App config)) t of None \<Rightarrow> map_of essentials t | Some f \<Rightarrow> Some f)) \<and>
     pendingResolutions s =
       reg_waits env (features s) False (concat (map hc_requires (c_Inbound config @ c_Outbound config))) \<and>
     (c_Inbound config \<noteq> [] \<longrightarrow> GetFeature env s (inboundType env) \<noteq> None) \<and>
     (c_Outbound config \<noteq> [] \<longrightarrow> GetFeature env s (outboundType env) \<noteq> None)"
proof -
  obtain s1 s2 s3 where a: "add_apps env (c_App config) NewInstance = (s1, None)"
      and e: "add_essentials env essentials s1 = (s2, None)" and p: "pendingResolutions s2 = []"
      and i: "addInboundHandlers env (c_Inbound config) s2 = (s3, None)"
      and o: "addOutboundHandlers env (c_Outbound config) s3 = (s, None)"
    using assms(3) by (auto simp: New_def initInstanceWithConfig_def split: prod.splits option.splits if_splits)
  have s1: "\<not> running s1" "features s1 = app_features (c_App config)"
    using add_apps_ok [OF assms(1) _ a] by (simp_all add: NewInstance_def)
  note s2 = add_essentials_ok [OF assms(1) s1(1) e assms(2)]
  note s3 = addInboundHandlers_ok [OF assms(1) i] and s4 = addOutboundHandlers_ok [OF assms(1) o]
  have f: "features s3 = features s2" "features s = features s2" "running s = running s2"
    using s3 s4 by simp_all
  have "pendingResolutions s =
      reg_waits env (features s) False (concat (map hc_requires (c_Inbound config @ c_Outbound config)))"
    using s3 s4 p by simp
  with s2 s3 s4 s1(2) f show ?thesis by (simp add: GetFeature_def)
qed

theorem new_instance_sound_witness:
  "case New demo_env [(''dns'', (''dns'', ''local''))]
       \<lparr>c_App = [App [] (Some (''inbound'', ''m''))],
        c_Inbound = [\<lparr>hc_requires = [(Resolution [''dispatcher''] ''init'' [], False)], hc_error = None,
          hc_handler = True, hc_refused = None\<rparr>], c_Outbound = []\<rparr> of
     Inl _ \<Rightarrow> False
   | Inr s \<Rightarrow> pendingResolutions s = [Resolution [''dispatcher''] ''init'' []] \<and>
       GetFeature demo_env s ''dns'' = Some (''dns'', ''local'')"
proof -
  let ?config = "\<lparr>c_App = [App [] (Some (''inbound'', ''m''))],
        c_Inbound = [\<lparr>hc_requires = [(Resolution [''dispatcher''] ''init'' [], False)], hc_error = None,
          hc_handler = True, hc_refused = None\<rparr>], c_Outbound = []\<rparr> :: (string \<times> string, string, string) config"
  define s where "s = (NewInstance\<lparr>features := [(''inbound'', ''m''), (''dns'', ''local'')],
    pendingResolutions := [Resolution [''dispatcher''] ''init'' []]\<rparr> :: (string \<times> string, string, string) xray)"
  have s: "New demo_env [(''dns'', (''dns'', ''local''))] ?config = Inr s"
    by (simp add: s_def New_def initInstanceWithConfig_def NewInstance_def AddFeature_def GetFeature_def
        AddInboundHandler_def RequireFeatures.simps found_all_def)
  then show ?thesis
    using new_instance_sound [OF honest_demo _ s]
    by (simp add: app_features_def List.map_filter_def found_all_def s_def NewInstance_def)
qed

text \<open>C22: starting runs the features in order up to and including the first that fails, none after
  it, reports that failure, and leaves the instance marked as running either way; closing closes every
  feature it holds, whatever fails, and reports all the failures; but a feature added while the instance runs is started and
  forgotten: it is never closed.\<close>

theorem instance_lifecycle:
  assumes "Start env s = (s1, e)" "AddFeature env f s1 = (s2, e2)" "Close_instance env s2 = (s3, e3)"
  shows "running s1 \<and>
     (if \<forall>g \<in> set (features s). start_err env g = None
      then e = None \<and> events s1 = events s @ map Started (features s)
      else \<exists>ok g rest. features s = ok @ g # rest \<and> (\<forall>h \<in> set ok. start_err env h = None) \<and>
             start_err env g \<noteq> None \<and> e = start_err env g \<and>
             events s1 = events s @ map Started ok @ [Started g]) \<and>
     features s2 = features s \<and> e2 = None \<and> \<not> running s3 \<and>
     events s3 = events s1 @ [Started f] @ map Closed (features s) \<and>
     e3 = (if List.map_filter (close_err env) (features s) = [] then None
           else Some (List.map_filter (close_err env) (features s)))"
proof -
  let ?ok = "started_ok env (features s)"
  have s1: "s1 = s\<lparr>running := True, events := events s @ map Started (take (Suc (length ?ok)) (features s))\<rparr>"
    and e: "e = (case drop (length ?ok) (features s) of [] \<Rightarrow> None | f # _ \<Rightarrow> start_err env f)"
    using assms(1) Start_spec [of env s] by simp_all
  have start: "if \<forall>g \<in> set (features s). start_err env g = None
      then e = None \<and> events s1 = events s @ map Started (features s)
      else \<exists>ok g rest. features s = ok @ g # rest \<and> (\<forall>h \<in> set ok. start_err env h = None) \<and>
             start_err env g \<noteq> None \<and> e = start_err env g \<and>
             events s1 = events s @ map Started ok @ [Started g]"
  proof (cases "\<forall>g \<in> set (features s). start_err env g = None")
    case True
    then have "?ok = features s" by (simp add: started_ok_def takeWhile_eq_all_conv)
    with True s1 e show ?thesis by simp
  next
    case False
    then have "dropWhile (\<lambda>f. start_err env f = None) (features s) \<noteq> []"
      by (simp add: dropWhile_eq_Nil_conv)
    then obtain g rest where g: "dropWhile (\<lambda>f. start_err env f = None) (features s) = g # rest"
      by (cases "dropWhile (\<lambda>f. start_err env f = None) (features s)") auto
    obtain ok where ok: "ok = ?ok" by simp
    from g have fs: "features s = ok @ g # rest"
      by (metis ok started_ok_def takeWhile_dropWhile_id)
    have g_err: "start_err env g \<noteq> None"
      using hd_dropWhile [OF \<open>dropWhile _ (features s) \<noteq> []\<close>] by (simp add: g)
    have ok_err: "\<forall>h \<in> set ok. start_err env h = None"
      unfolding ok started_ok_def by (auto dest: set_takeWhileD)
    have "e = start_err env g" "events s1 = events s @ map Started ok @ [Started g]"
      using e s1 ok [unfolded fs, symmetric] unfolding fs by simp_all
    with fs g_err ok_err show ?thesis using False by auto
  qed
  have r: "running s1" "features s1 = features s" by (simp_all add: s1)
  then have s2: "features s2 = features s" "events s2 = events s1 @ [Started f]" "e2 = None"
    using assms(2) by (auto simp: AddFeature_def)
  then have s3: "\<not> running s3" "events s3 = events s1 @ [Started f] @ map Closed (features s)"
    "e3 = (if List.map_filter (close_err env) (features s) = [] then None
           else Some (List.map_filter (close_err env) (features s)))"
    using assms(3) by (auto simp: Close_instance_def Let_def)
  show ?thesis
    by (rule conjI [OF r(1) conjI [OF start]]) (simp add: s2 s3)
qed

theorem instance_lifecycle_witness:
  "\<exists>e. events (fst (Close_instance demo_env (fst (AddFeature demo_env (''late'', ''l'')
     (fst (Start demo_env (NewInstance\<lparr>features := [(''dns'', ''d''), (''x'', ''bad''), (''y'', ''z'')]\<rparr>))))))) =
   e @ [Started (''late'', ''l''), Closed (''dns'', ''d''), Closed (''x'', ''bad''), Closed (''y'', ''z'')]"
  using instance_lifecycle [OF prod.collapse [symmetric] prod.collapse [symmetric] prod.collapse [symmetric],
      of demo_env "NewInstance\<lparr>features := [(''dns'', ''d''), (''x'', ''bad''), (''y'', ''z'')]\<rparr>" "(''late'', ''l'')"]
  by (simp add: NewInstance_def)

end
