(* ===== verification/App_Services.thy ===== *)
theory App_Services
  imports App_Log Core_Instance
begin

text \<open>
  \<open>entry/src/main/golang\<close>: the app's own Go library. \<open>ipc/ipc.go\<close> (the registry and its contract),
  \<open>services/*.go\<close> (the services), \<open>main.go\<close> (\<open>GoInvoke\<close>, which catches panics). The state \<open>app\<close> holds the
  log, the core service and the process environment, and \<open>a_gone\<close>, the Xray instances that the core
  service has given up, in order and in the state it left them in (nothing refers to them any more; they
  are kept here to say whether they were closed); \<open>app_env\<close> is what one request takes from outside:
  files, network, clock, the Go runtime's figures, and the parts of the Xray core a configuration
  stands for. A JSON message is \<open>RawEmpty\<close> (no bytes), \<open>RawInvalid\<close> (not JSON) or a value.
\<close>

section \<open>The IPC contract\<close>

datatype raw = RawEmpty | RawInvalid | Raw json

record ipc_error =
  Code :: string
  Message :: string
  Detail :: string

datatype go_error = IpcError ipc_error | OtherError string

definition NewError :: "string \<Rightarrow> string \<Rightarrow> ipc_error" where
  "NewError code message = \<lparr>Code = code, Message = message, Detail = ''''\<rparr>"

text \<open>Called with an error that is not nil.\<close>

fun WrapError :: "string \<Rightarrow> go_error \<Rightarrow> ipc_error" where
  "WrapError code (IpcError e) = e"
| "WrapError code (OtherError m) = NewError code m"

record response =
  Success :: bool
  Data :: "json option"
  Error :: "ipc_error option"

definition Fail :: "ipc_error \<Rightarrow> response" where
  "Fail e = \<lparr>Success = False, Data = None, Error = Some e\<rparr>"

text \<open>The value a service returns; \<open>None\<close> is one that \<open>json.Marshal\<close> rejects.\<close>

definition OK :: "json option \<Rightarrow> response" where
  "OK data = (case data of
     None \<Rightarrow> Fail (WrapError ''INTERNAL'' (OtherError ''json: error calling MarshalJSON''))
   | Some d \<Rightarrow> \<lparr>Success = True, Data = Some d, Error = None\<rparr>)"

datatype outcome = Returned "go_error + json option" | Panicked string

abbreviation returns_err :: "string \<Rightarrow> string \<Rightarrow> outcome" where
  "returns_err code message \<equiv> Returned (Inl (IpcError (NewError code message)))"

abbreviation returns :: "json \<Rightarrow> outcome" where
  "returns v \<equiv> Returned (Inr (Some v))"

fun split_dot :: "string \<Rightarrow> string \<Rightarrow> string \<times> string" where
  "split_dot done [] = ('''', '''')"
| "split_dot done (c # s) = (if c = CHR ''.'' then (rev done, s) else split_dot (c # done) s)"

definition splitServiceMethod :: "string \<Rightarrow> string \<times> string" where
  "splitServiceMethod s = split_dot [] s"

type_synonym 's service = "string \<Rightarrow> raw \<Rightarrow> 's \<Rightarrow> outcome \<times> 's"

text \<open>
  \<open>Invoke\<close> with the registered services in the order of registration, a later one of the same name
  replacing an earlier one. \<open>Inl\<close> is a panic that runs through it. The order of the names in the
  detail of \<open>UNKNOWN_SERVICE\<close> is that of a Go map, hence any: the list itself stands for it.
\<close>

definition lookup :: "(string \<times> 's service) list \<Rightarrow> string \<Rightarrow> 's service option" where
  "lookup services name = map_of (rev services) name"

definition Invoke :: "(string \<times> 's service) list \<Rightarrow> string \<Rightarrow> raw \<Rightarrow> 's \<Rightarrow> (string + response) \<times> 's" where
  "Invoke services serviceMethod params s =
     (let (name, method) = splitServiceMethod serviceMethod in
      if name = '''' \<or> method = ''''
      then (Inr (Fail (NewError ''BAD_REQUEST''
              (''service must be in form 'Service.Method', got: '' @ serviceMethod))), s)
      else case lookup services name of
        None \<Rightarrow> (Inr (Fail \<lparr>Code = ''UNKNOWN_SERVICE'', Message = ''unknown service: '' @ name,
                        Detail = ''registered: '' @ concat (map (\<lambda>(n, _). n @ '' '') services)\<rparr>), s)
      | Some f \<Rightarrow>
          (case f method params s of
             (Panicked m, s) \<Rightarrow> (Inl m, s)
           | (Returned (Inl err), s) \<Rightarrow> (Inr (Fail (WrapError ''INTERNAL'' err)), s)
           | (Returned (Inr data), s) \<Rightarrow> (Inr (OK data), s)))"

section \<open>Parameters\<close>

text \<open>
  \<open>json.Unmarshal\<close> into a struct: the members in order, names compared without regard to (ASCII)
  case, \<open>null\<close> leaving a field as it is, unknown names skipped; a member of the wrong type makes the
  whole an error. \<open>assign\<close> is the assignment to the field of a (lower case) name.
\<close>

definition lower :: "char \<Rightarrow> char" where
  "lower c = (let n = of_char c :: nat in if 65 \<le> n \<and> n \<le> 90 then char_of (n + 32) else c)"

fun decode_members :: "(string \<Rightarrow> json \<Rightarrow> 'p \<Rightarrow> 'p option) \<Rightarrow> (string \<times> json) list \<Rightarrow> 'p \<Rightarrow> 'p option" where
  "decode_members assign [] p = Some p"
| "decode_members assign ((k, v) # ms) p =
     (case assign (map lower k) v p of None \<Rightarrow> None | Some p \<Rightarrow> decode_members assign ms p)"

fun Unmarshal :: "(string \<Rightarrow> json \<Rightarrow> 'p \<Rightarrow> 'p option) \<Rightarrow> raw \<Rightarrow> 'p \<Rightarrow> 'p option" where
  "Unmarshal assign (Raw (JObj ms)) p = decode_members assign ms p"
| "Unmarshal assign (Raw JNull) p = Some p"
| "Unmarshal assign _ p = None"

fun into_string :: "json \<Rightarrow> (string \<Rightarrow> 'p) \<Rightarrow> 'p \<Rightarrow> 'p option" where
  "into_string (JStr s) f p = Some (f s)"
| "into_string JNull f p = Some p"
| "into_string _ f p = None"

fun into_int :: "json \<Rightarrow> (int \<Rightarrow> 'p) \<Rightarrow> 'p \<Rightarrow> 'p option" where
  "into_int (JInt n) f p = (if - (2 ^ 63) \<le> n \<and> n < 2 ^ 63 then Some (f n) else None)"
| "into_int JNull f p = Some p"
| "into_int _ f p = None"

definition parseParams :: "(string \<Rightarrow> json \<Rightarrow> 'p \<Rightarrow> 'p option) \<Rightarrow> raw \<Rightarrow> 'p \<Rightarrow> ipc_error + 'p" where
  "parseParams assign params p =
     (if params = RawEmpty \<or> params = Raw JNull then Inr p
      else case Unmarshal assign params p of
             None \<Rightarrow> Inl (WrapError ''BAD_PARAMS'' (OtherError ''json: cannot unmarshal''))
           | Some p \<Rightarrow> Inr p)"

definition with_params :: "(string \<Rightarrow> json \<Rightarrow> 'p \<Rightarrow> 'p option) \<Rightarrow> 'p \<Rightarrow> raw \<Rightarrow> ('p \<Rightarrow> 's \<Rightarrow> outcome \<times> 's) \<Rightarrow> 's \<Rightarrow>
    outcome \<times> 's" where
  "with_params assign zero params k s =
     (case parseParams assign params zero of
        Inl e \<Rightarrow> (Returned (Inl (IpcError e)), s)
      | Inr p \<Rightarrow> k p s)"

section \<open>State and environment\<close>

record ('f, 't, 'c) app =
  a_log :: xlog
  a_core :: "('f, 't, 'c) xray option"
  a_startedAt :: int
  a_logHooked :: bool
  a_environ :: "string \<rightharpoonup> string"
  a_gone :: "('f, 't, 'c) xray list"

datatype http_result = HttpError string | HttpResponse int string "string + string"

text \<open>
  \<open>init_envs i\<close> is what the write of the \<open>i\<close>-th entry of the ring finds when the log is initialised;
  \<open>write_file f c\<close> is how writing the text \<open>c\<close> to the file \<open>f\<close> fails, with what it leaves in the file.
\<close>

record ('f, 't, 'c) app_env =
  log_env :: log_env
  init_envs :: "nat \<Rightarrow> log_env"
  feature_env :: "('f, 't, 'c) feature_env"
  clock_ms :: int
  elapsed :: string
  clean_env :: clean_env
  glob :: "string + string list"
  runtime_stats :: "(string \<times> json) list"
  go_version :: string
  core_version :: string
  read_file :: "string \<Rightarrow> string + string"
  load_config :: "string \<Rightarrow> string + ('f, 't, 'c) config"
  essentials :: "('t \<times> 'f) list"
  error_text :: "string list \<Rightarrow> string"
  counters :: "string \<Rightarrow> int option"
  stats_type :: 't
  is_stats_manager :: "'f \<Rightarrow> bool"
  dial :: "string \<Rightarrow> int \<Rightarrow> int option"
  socks_dialer :: "string option"
  http_get :: "string \<Rightarrow> http_result"
  parse_json :: "string \<Rightarrow> raw"
  stack :: string
  crash_stamp :: string
  crash_time :: string
  write_file :: "file_id \<Rightarrow> string \<Rightarrow> (string \<times> written list) option"

definition log_info :: "('f, 't, 'c) app_env \<Rightarrow> string \<Rightarrow> string \<Rightarrow> log_fields \<Rightarrow> ('f, 't, 'c) app \<Rightarrow> ('f, 't, 'c) app" where
  "log_info env m msg flds s = s\<lparr>a_log := Info (log_env env) m msg flds (a_log s)\<rparr>"

definition log_warn :: "('f, 't, 'c) app_env \<Rightarrow> string \<Rightarrow> string \<Rightarrow> ('f, 't, 'c) app \<Rightarrow> ('f, 't, 'c) app" where
  "log_warn env m msg s = s\<lparr>a_log := Warn (log_env env) m msg [] (a_log s)\<rparr>"

section \<open>The services\<close>

subsection \<open>LogService\<close>

record log_init_params =
  p_Dir :: string
  p_KeepDays :: int

definition set_log_init :: "string \<Rightarrow> json \<Rightarrow> log_init_params \<Rightarrow> log_init_params option" where
  "set_log_init k v p =
     (if k = ''dir'' then into_string v (\<lambda>x. p\<lparr>p_Dir := x\<rparr>) p
      else if k = ''keepdays'' then into_int v (\<lambda>x. p\<lparr>p_KeepDays := x\<rparr>) p else Some p)"

record log_write_params =
  p_Level :: int
  p_Module :: string
  p_Msg :: string

definition set_log_write :: "string \<Rightarrow> json \<Rightarrow> log_write_params \<Rightarrow> log_write_params option" where
  "set_log_write k v p =
     (if k = ''level'' then into_int v (\<lambda>x. p\<lparr>p_Level := x\<rparr>) p
      else if k = ''module'' then into_string v (\<lambda>x. p\<lparr>p_Module := x\<rparr>) p
      else if k = ''msg'' then into_string v (\<lambda>x. p\<lparr>p_Msg := x\<rparr>) p else Some p)"

definition set_int :: "string \<Rightarrow> string \<Rightarrow> json \<Rightarrow> int \<Rightarrow> int option" where
  "set_int name k v n = (if k = name then into_int v (\<lambda>x. x) n else Some n)"

definition json_of_entry :: "log_entry \<Rightarrow> json" where
  "json_of_entry e = JObj ([(''time'', JStr (e_Time e)), (''level'', JInt (e_Level e)),
     (''module'', JStr (e_Module e)), (''message'', JStr (e_Message e))] @
     (if e_Fields e = [] then [] else [(''fields'', JObj (e_Fields e))]))"

definition json_of_strings :: "string list \<Rightarrow> json" where
  "json_of_strings xs = (if xs = [] then JNull else JArr (map JStr xs))"

definition log_init :: "('f, 't, 'c) app_env \<Rightarrow> log_init_params \<Rightarrow> ('f, 't, 'c) app \<Rightarrow> outcome \<times> ('f, 't, 'c) app" where
  "log_init env p s =
     (if p_Dir p = '''' then (returns_err ''BAD_PARAMS'' ''dir is required'', s)
      else case Init (log_env env) (init_envs env) (p_Dir p) (a_log s) of
        (Some e, x) \<Rightarrow> (Returned (Inl (IpcError (WrapError ''INTERNAL'' (OtherError e)))), s\<lparr>a_log := x\<rparr>)
      | (None, x) \<Rightarrow>
          let s = s\<lparr>a_log := x\<rparr>;
              keep = (if p_KeepDays p \<le> 0 then 7 else p_KeepDays p);
              s = (case CleanOld (clean_env env) keep (a_log s) of
                     (Some e, x) \<Rightarrow> log_warn env ''log'' (''clean old logs: '' @ e) (s\<lparr>a_log := x\<rparr>)
                   | (None, x) \<Rightarrow> s\<lparr>a_log := x\<rparr>);
              s = log_info env ''log'' ''log system initialized''
                    [(''dir'', JStr (p_Dir p)), (''keepDays'', JInt keep)] s
          in (returns (JObj [(''dir'', JStr (p_Dir p))]), s))"

definition LogService :: "('f, 't, 'c) app_env \<Rightarrow> ('f, 't, 'c) app service" where
  "LogService env method params s =
     (if method = ''Init''
      then with_params set_log_init \<lparr>p_Dir = '''', p_KeepDays = 0\<rparr> params (log_init env) s
      else if method = ''SetLevel''
      then with_params (set_int ''level'') 0 params
        (\<lambda>level s. if level < LevelDebug \<or> level > LevelFatal
           then (returns_err ''BAD_PARAMS'' ''level must be 3..7'', s)
           else let s = s\<lparr>a_log := SetLevel level (a_log s)\<rparr>
                in (returns (JObj [(''level'', JInt (GetLevel (a_log s)))]), s)) s
      else if method = ''GetLevel'' then (returns (JObj [(''level'', JInt (GetLevel (a_log s)))]), s)
      else if method = ''Recent''
      then with_params (set_int ''limit'') 0 params
        (\<lambda>limit s. (returns (JArr (map json_of_entry (Recent limit (a_log s)))), s)) s
      else if method = ''ListFiles''
      then (if LogDir (a_log s) = '''' then (returns JNull, s)
            else case glob env of
              Inl e \<Rightarrow> (Returned (Inl (IpcError (WrapError ''INTERNAL'' (OtherError e)))), s)
            | Inr names \<Rightarrow> (returns (json_of_strings names), s))
      else if method = ''Write''
      then with_params set_log_write \<lparr>p_Level = 0, p_Module = '''', p_Msg = ''''\<rparr> params
        (\<lambda>p s. let m = (if p_Module p = '''' then ''external'' else p_Module p)
               in (returns (JObj [(''ok'', JBool True)]),
                   s\<lparr>a_log := WriteExternal (log_env env) (p_Level p) m (p_Msg p) (a_log s)\<rparr>)) s
      else (returns_err ''BAD_REQUEST'' (''unknown method LogService.'' @ method), s))"

subsection \<open>StatusService, VersionService, PingService\<close>

definition StatusService :: "('f, 't, 'c) app_env \<Rightarrow> ('f, 't, 'c) app service" where
  "StatusService env method params s =
     (if method = ''Get''
      then (returns (JObj (runtime_stats env @
              [(''logDir'', JStr (LogDir (a_log s))), (''logLevel'', JInt (GetLevel (a_log s)))])), s)
      else if method = ''GC'' then (returns (JObj [(''ok'', JBool True)]), s)
      else (returns_err ''BAD_REQUEST'' (''unknown method StatusService.'' @ method), s))"

definition VersionService :: "('f, 't, 'c) app_env \<Rightarrow> ('f, 't, 'c) app service" where
  "VersionService env method params s =
     (if method = ''Get''
      then (returns (JObj [(''core'', JStr (core_version env)), (''framework'', JStr ''1.0.0''),
              (''go'', JStr (go_version env))]), s)
      else (returns_err ''BAD_REQUEST'' (''unknown method VersionService.'' @ method), s))"

definition PingService :: "('f, 't, 'c) app_env \<Rightarrow> ('f, 't, 'c) app service" where
  "PingService env method params s =
     (if method = ''Ping''
      then (Returned (Inr (case (if params = RawEmpty then Raw JNull else params) of
              Raw v \<Rightarrow> Some (JObj [(''echo'', v), (''timestamp'', JInt (clock_ms env))])
            | _ \<Rightarrow> None)), s)
      else (returns_err ''BAD_REQUEST'' (''unknown method PingService.'' @ method), s))"

subsection \<open>CoreService\<close>

record core_start_params =
  p_Fd :: int
  p_AssetLocation :: string
  p_ConfigLocation :: string

definition set_core_start :: "string \<Rightarrow> json \<Rightarrow> core_start_params \<Rightarrow> core_start_params option" where
  "set_core_start k v p =
     (if k = ''fd'' then into_int v (\<lambda>x. p\<lparr>p_Fd := x\<rparr>) p
      else if k = ''assetlocation'' then into_string v (\<lambda>x. p\<lparr>p_AssetLocation := x\<rparr>) p
      else if k = ''configlocation'' then into_string v (\<lambda>x. p\<lparr>p_ConfigLocation := x\<rparr>) p else Some p)"

fun digits :: "nat \<Rightarrow> string" where
  "digits n = (if n < 10 then [char_of (48 + n)] else digits (n div 10) @ [char_of (48 + n mod 10)])"

declare digits.simps [simp del]

definition is_running :: "('f, 't, 'c) app \<Rightarrow> bool" where
  "is_running s = (case a_core s of None \<Rightarrow> False | Some i \<Rightarrow> running i)"

definition hookXrayLog :: "('f, 't, 'c) app_env \<Rightarrow> ('f, 't, 'c) app \<Rightarrow> ('f, 't, 'c) app" where
  "hookXrayLog env s =
     (if a_logHooked s then s
      else log_info env ''core'' ''xray console log bridged to xlog'' [] (s\<lparr>a_logHooked := True\<rparr>))"

text \<open>The first step of \<open>start\<close>: the previous instance is closed, if it is running, and dropped.\<close>

definition drop_previous :: "('f, 't, 'c) app_env \<Rightarrow> ('f, 't, 'c) app \<Rightarrow> ('f, 't, 'c) app" where
  "drop_previous env s =
     (case a_core s of
        None \<Rightarrow> s
      | Some inst \<Rightarrow>
          let (inst, s) =
                (if running inst
                 then case Close_instance (feature_env env) inst of
                        (inst, Some errs) \<Rightarrow>
                          (inst, log_warn env ''core'' (''close previous instance: '' @ error_text env errs) s)
                      | (inst, None) \<Rightarrow> (inst, s)
                 else (inst, s))
          in s\<lparr>a_core := None, a_gone := a_gone s @ [inst]\<rparr>)"

definition set_environ :: "core_start_params \<Rightarrow> ('f, 't, 'c) app \<Rightarrow> ('f, 't, 'c) app" where
  "set_environ p s =
     (let s = (if p_AssetLocation p \<noteq> ''''
               then s\<lparr>a_environ := (a_environ s)(''xray.location.asset'' \<mapsto> p_AssetLocation p)\<rparr> else s)
      in if p_Fd p > 0 then s\<lparr>a_environ := (a_environ s)(''xray.tun.fd'' \<mapsto> digits (nat (p_Fd p)))\<rparr>
         else s\<lparr>a_environ := (a_environ s)(''xray.tun.fd'' := None)\<rparr>)"

definition core_start :: "('f, 't, 'c) app_env \<Rightarrow> core_start_params \<Rightarrow> ('f, 't, 'c) app \<Rightarrow>
    outcome \<times> ('f, 't, 'c) app" where
  "core_start env p s =
     (if p_ConfigLocation p = '''' then (returns_err ''BAD_PARAMS'' ''configLocation is required'', s)
      else
        let s = set_environ p (drop_previous env s) in
        case read_file env (p_ConfigLocation p) of
          Inl e \<Rightarrow> (returns_err ''BAD_PARAMS'' (''read config: '' @ e), s)
        | Inr data \<Rightarrow>
          (case load_config env data of
             Inl e \<Rightarrow> (returns_err ''BAD_PARAMS'' (''parse config: '' @ e), s)
           | Inr config \<Rightarrow>
             let s = hookXrayLog env s in
             case New (feature_env env) (essentials env) config of
               Inl (Panic m) \<Rightarrow> (Panicked m, s)
             | Inl (Err e) \<Rightarrow> (returns_err ''INTERNAL'' (''core.New: '' @ e), s)
             | Inr inst \<Rightarrow>
               (case Start (feature_env env) inst of
                  (inst, Some e) \<Rightarrow>
                    let inst = fst (Close_instance (feature_env env) inst)
                    in (returns_err ''INTERNAL'' (''core.Start: '' @ e), s\<lparr>a_gone := a_gone s @ [inst]\<rparr>)
                | (inst, None) \<Rightarrow>
                    (returns (JObj [(''running'', JBool True), (''version'', JStr (core_version env))]),
                     log_info env ''core'' ''xray started''
                       [(''config'', JStr (p_ConfigLocation p)), (''fd'', JInt (p_Fd p)),
                        (''version'', JStr (core_version env))]
                       (s\<lparr>a_core := Some inst, a_startedAt := clock_ms env\<rparr>)))))"

definition core_stop :: "('f, 't, 'c) app_env \<Rightarrow> ('f, 't, 'c) app \<Rightarrow> outcome \<times> ('f, 't, 'c) app" where
  "core_stop env s =
     (case a_core s of
        None \<Rightarrow> (returns (JObj [(''running'', JBool False), (''was'', JBool False)]), s)
      | Some inst \<Rightarrow>
          let stopped = (\<lambda>inst s. (returns (JObj [(''running'', JBool False), (''was'', JBool True)]),
                log_info env ''core'' ''xray stopped'' [] (s\<lparr>a_core := None, a_gone := a_gone s @ [inst]\<rparr>)))
          in if running inst
             then case Close_instance (feature_env env) inst of
                    (inst, Some errs) \<Rightarrow>
                      (Returned (Inl (IpcError (WrapError ''INTERNAL'' (OtherError (error_text env errs))))),
                       s\<lparr>a_core := Some inst\<rparr>)
                  | (inst, None) \<Rightarrow> stopped inst (s\<lparr>a_core := Some inst\<rparr>)
             else stopped inst s)"

definition core_state :: "('f, 't, 'c) app_env \<Rightarrow> ('f, 't, 'c) app \<Rightarrow> outcome \<times> ('f, 't, 'c) app" where
  "core_state env s =
     (returns (JObj ([(''running'', JBool (is_running s))] @
        (if is_running s then [(''uptimeMs'', JInt (clock_ms env - a_startedAt s))] else []) @
        [(''version'', JStr (core_version env))])), s)"

text \<open>The counters of one outbound tag, left out when neither exists.\<close>

definition tag_stats :: "('f, 't, 'c) app_env \<Rightarrow> string \<Rightarrow> (string \<times> json) option" where
  "tag_stats env tag =
     (let up = counters env (''outbound>>>'' @ tag @ ''>>>traffic>>>uplink'');
          down = counters env (''outbound>>>'' @ tag @ ''>>>traffic>>>downlink'');
          entry = (case down of None \<Rightarrow> [] | Some n \<Rightarrow> [(''down'', JInt n)]) @
                  (case up of None \<Rightarrow> [] | Some n \<Rightarrow> [(''up'', JInt n)])
      in if entry = [] then None else Some (tag, JObj entry))"

definition core_stats :: "('f, 't, 'c) app_env \<Rightarrow> ('f, 't, 'c) app \<Rightarrow> outcome \<times> ('f, 't, 'c) app" where
  "core_stats env s =
     (case a_core s of
        None \<Rightarrow> (returns_err ''NOT_READY'' ''core not running'', s)
      | Some inst \<Rightarrow>
          if \<not> running inst then (returns_err ''NOT_READY'' ''core not running'', s)
          else case GetFeature (feature_env env) inst (stats_type env) of
            None \<Rightarrow> (returns_err ''INTERNAL'' ''stats manager unavailable'', s)
          | Some f \<Rightarrow>
              if \<not> is_stats_manager env f then (returns_err ''INTERNAL'' ''stats manager unavailable'', s)
              else (returns (JObj (List.map_filter (tag_stats env) [''block'', ''direct'', ''dns-out'', ''proxy''])), s))"

definition CoreService :: "('f, 't, 'c) app_env \<Rightarrow> ('f, 't, 'c) app service" where
  "CoreService env method params s =
     (if method = ''Start''
      then with_params set_core_start \<lparr>p_Fd = 0, p_AssetLocation = '''', p_ConfigLocation = ''''\<rparr> params
             (core_start env) s
      else if method = ''Stop'' then core_stop env s
      else if method = ''State'' then core_state env s
      else if method = ''Stats'' then core_stats env s
      else (returns_err ''BAD_REQUEST'' (''unknown method CoreService.'' @ method), s))"

subsection \<open>NodeService, TestService, SubscriptionService\<close>

record node_ping_params =
  p_Address :: string
  p_Port :: int
  p_TimeoutMs :: int

definition set_node_ping :: "string \<Rightarrow> json \<Rightarrow> node_ping_params \<Rightarrow> node_ping_params option" where
  "set_node_ping k v p =
     (if k = ''address'' then into_string v (\<lambda>x. p\<lparr>p_Address := x\<rparr>) p
      else if k = ''port'' then into_int v (\<lambda>x. p\<lparr>p_Port := x\<rparr>) p
      else if k = ''timeoutms'' then into_int v (\<lambda>x. p\<lparr>p_TimeoutMs := x\<rparr>) p else Some p)"

text \<open>\<open>net.JoinHostPort\<close> of the standard library, and \<open>time.Duration(ms) * time.Millisecond\<close> in 64 bits.\<close>

definition JoinHostPort :: "string \<Rightarrow> string \<Rightarrow> string" where
  "JoinHostPort host port = (if CHR '':'' \<in> set host then ''['' @ host @ '']:'' @ port else host @ '':'' @ port)"

definition millis :: "int \<Rightarrow> int" where
  "millis ms = (ms * 1000000 + 2 ^ 63) mod 2 ^ 64 - 2 ^ 63"

definition node_ping :: "('f, 't, 'c) app_env \<Rightarrow> node_ping_params \<Rightarrow> json" where
  "node_ping env p =
     JObj [(''latencyMs'', JInt (case dial env (JoinHostPort (p_Address p) (digits (nat (p_Port p)))) (millis (p_TimeoutMs p)) of
        None \<Rightarrow> -1 | Some ms \<Rightarrow> ms))]"

definition NodeService :: "('f, 't, 'c) app_env \<Rightarrow> ('f, 't, 'c) app service" where
  "NodeService env method params s =
     (if method = ''Ping''
      then with_params set_node_ping \<lparr>p_Address = '''', p_Port = 0, p_TimeoutMs = 0\<rparr> params
        (\<lambda>p s. if p_Address p = '''' \<or> p_Port p \<le> 0 \<or> p_Port p > 65535
               then (returns_err ''BAD_PARAMS'' ''invalid address or port'', s)
               else let p = (if p_TimeoutMs p \<le> 0 then p\<lparr>p_TimeoutMs := 3000\<rparr> else p)
                    in (returns (node_ping env p), s)) s
      else (returns_err ''BAD_REQUEST'' (''unknown method NodeService.'' @ method), s))"

record ip_info =
  i_IP :: string
  i_City :: string
  i_Region :: string
  i_Country :: string

definition set_ip_info :: "string \<Rightarrow> json \<Rightarrow> ip_info \<Rightarrow> ip_info option" where
  "set_ip_info k v p =
     (if k = ''ip'' then into_string v (\<lambda>x. p\<lparr>i_IP := x\<rparr>) p
      else if k = ''city'' then into_string v (\<lambda>x. p\<lparr>i_City := x\<rparr>) p
      else if k = ''region'' then into_string v (\<lambda>x. p\<lparr>i_Region := x\<rparr>) p
      else if k = ''country'' then into_string v (\<lambda>x. p\<lparr>i_Country := x\<rparr>) p else Some p)"

definition buildLocation :: "ip_info \<Rightarrow> string" where
  "buildLocation info =
     (let location = i_City info;
          location = (if i_Region info \<noteq> ''''
                      then if location \<noteq> '''' then location @ '', '' @ i_Region info else i_Region info
                      else location)
      in if i_Country info \<noteq> ''''
         then if location \<noteq> '''' then location @ '', '' @ i_Country info else i_Country info
         else location)"

text \<open>The loop over the endpoints: \<open>None\<close> when none of them answers with an address.\<close>

fun try_endpoints :: "('f, 't, 'c) app_env \<Rightarrow> string list \<Rightarrow> ip_info option" where
  "try_endpoints env [] = None"
| "try_endpoints env (endpoint # es) =
     (case http_get env endpoint of
        HttpError _ \<Rightarrow> try_endpoints env es
      | HttpResponse status _ body \<Rightarrow>
          (case body of
             Inl _ \<Rightarrow> try_endpoints env es
           | Inr text \<Rightarrow>
               if status \<noteq> 200 then try_endpoints env es
               else case Unmarshal set_ip_info (parse_json env text) \<lparr>i_IP = '''', i_City = '''', i_Region = '''', i_Country = ''''\<rparr> of
                      None \<Rightarrow> try_endpoints env es
                    | Some info \<Rightarrow> if i_IP info = '''' then try_endpoints env es else Some info))"

definition checkIp :: "('f, 't, 'c) app_env \<Rightarrow> outcome" where
  "checkIp env =
     (case socks_dialer env of
        Some e \<Rightarrow> Returned (Inl (IpcError (WrapError ''INTERNAL'' (OtherError e))))
      | None \<Rightarrow>
          (case try_endpoints env [''http://ip-api.com/json/'', ''https://api.ipify.org?format=json''] of
             None \<Rightarrow> returns_err ''INTERNAL'' ''all exit check endpoints failed''
           | Some info \<Rightarrow> returns (JObj [(''ip'', JStr (i_IP info)), (''location'', JStr (buildLocation info))])))"

definition TestService :: "('f, 't, 'c) app_env \<Rightarrow> ('f, 't, 'c) app service" where
  "TestService env method params s =
     (if method = ''CheckIp'' then (checkIp env, s)
      else (returns_err ''BAD_REQUEST'' (''unknown method TestService.'' @ method), s))"

definition set_string :: "string \<Rightarrow> string \<Rightarrow> json \<Rightarrow> string \<Rightarrow> string option" where
  "set_string name k v x = (if k = name then into_string v (\<lambda>y. y) x else Some x)"

definition fetch :: "('f, 't, 'c) app_env \<Rightarrow> string \<Rightarrow> outcome" where
  "fetch env url =
     (case socks_dialer env of
        Some e \<Rightarrow> Returned (Inl (IpcError (WrapError ''INTERNAL'' (OtherError e))))
      | None \<Rightarrow>
          (case http_get env url of
             HttpError e \<Rightarrow> Returned (Inl (IpcError (WrapError ''INTERNAL'' (OtherError e))))
           | HttpResponse status text body \<Rightarrow>
               if status \<noteq> 200 then returns_err ''INTERNAL'' (''subscription http '' @ text)
               else case body of
                 Inl e \<Rightarrow> Returned (Inl (IpcError (WrapError ''INTERNAL'' (OtherError e))))
               | Inr b \<Rightarrow> returns (JObj [(''body'', JStr b)])))"

definition SubscriptionService :: "('f, 't, 'c) app_env \<Rightarrow> ('f, 't, 'c) app service" where
  "SubscriptionService env method params s =
     (if method = ''Fetch''
      then with_params (set_string ''url'') '''' params
        (\<lambda>url s. if url = '''' then (returns_err ''BAD_PARAMS'' ''url is required'', s) else (fetch env url, s)) s
      else (returns_err ''BAD_REQUEST'' (''unknown method SubscriptionService.'' @ method), s))"

section \<open>The registry and the entry point\<close>

text \<open>The \<open>init\<close> functions of the package, in the order of its files.\<close>

definition registered :: "('f, 't, 'c) app_env \<Rightarrow> (string \<times> ('f, 't, 'c) app service) list" where
  "registered env =
     [(''NodeService'', NodeService env), (''LogService'', LogService env), (''StatusService'', StatusService env),
      (''VersionService'', VersionService env), (''PingService'', PingService env), (''CoreService'', CoreService env),
      (''SubscriptionService'', SubscriptionService env), (''TestService'', TestService env)]"

text \<open>
  \<open>writeCrashFile\<close>: \<open>crash_stamp\<close> is the time as \<open>20060102_150405\<close>, \<open>crash_time\<close> in the format RFC 3339.
  \<open>os.WriteFile\<close> replaces what a file of the same second holds.
\<close>

definition crash_content :: "('f, 't, 'c) app_env \<Rightarrow> string \<Rightarrow> string \<Rightarrow> string" where
  "crash_content env svc r =
     ''service: '' @ svc @ [CHR 0x0A] @ ''time: '' @ crash_time env @ [CHR 0x0A] @ ''panic: '' @ r @
     [CHR 0x0A, CHR 0x0A] @ stack env"

definition writeCrashFile :: "('f, 't, 'c) app_env \<Rightarrow> string \<Rightarrow> string \<Rightarrow> ('f, 't, 'c) app \<Rightarrow> ('f, 't, 'c) app" where
  "writeCrashFile env svc r s =
     (let dir = LogDir (a_log s) in
      if dir = '''' then s
      else
        let path = (dir, ''crash_'' @ crash_stamp env @ ''.txt'');
            content = crash_content env svc r;
            put = (\<lambda>ws. s\<lparr>a_log := (a_log s)\<lparr>files := (files (a_log s))(path := ws)\<rparr>\<rparr>)
        in case write_file env path content of
             None \<Rightarrow> put [Text content]
           | Some (err, left) \<Rightarrow>
               let s = put left
               in s\<lparr>a_log := write_log (log_env env) LevelError ''ipc'' (''write crash file failed: '' @ err) [] (a_log s)\<rparr>)"

definition GoInvoke :: "('f, 't, 'c) app_env \<Rightarrow> string \<Rightarrow> raw \<Rightarrow> ('f, 't, 'c) app \<Rightarrow> response \<times> ('f, 't, 'c) app" where
  "GoInvoke env svc params s =
     (case Invoke (registered env) svc params s of
        (Inl r, s) \<Rightarrow>
          let s = s\<lparr>a_log := write_log (log_env env) LevelError ''ipc'' (''panic in '' @ svc @ '': '' @ r)
                     [(''stack'', JStr (stack env))] (a_log s)\<rparr>;
              s = writeCrashFile env svc r s
          in (Fail \<lparr>Code = ''PANIC'', Message = r, Detail = stack env\<rparr>, s)
      | (Inr resp, s) \<Rightarrow>
          (resp,
           if Success resp then log_info env ''ipc'' (svc @ '' ok in '' @ elapsed env) [] s
           else log_warn env ''ipc'' (svc @ '' failed in '' @ elapsed env @ '': '' @
                  (case Error resp of None \<Rightarrow> '''' | Some e \<Rightarrow> Code e @ '' '' @ Message e)) s))"

section \<open>The interface of a service\<close>

text \<open>A service refuses the methods it does not have, without any effect, in the same words.\<close>

locale ipc_service =
  fixes name :: string
    and invoke :: "'s service"
    and methods :: "string list"
  assumes unknown: "m \<notin> set methods \<Longrightarrow>
    invoke m p s = (returns_err ''BAD_REQUEST'' (''unknown method '' @ name @ ''.'' @ m), s)"
begin

lemma dispatch_unknown:
  assumes "splitServiceMethod q = (name, m)" "name \<noteq> ''''" "m \<noteq> ''''" "lookup services name = Some invoke"
    "m \<notin> set methods"
  shows "Invoke services q p s =
    (Inr (Fail (NewError ''BAD_REQUEST'' (''unknown method '' @ name @ ''.'' @ m))), s)"
  using assms by (simp add: Invoke_def unknown)

end

interpretation log_service: ipc_service "''LogService''" "LogService env"
    "[''Init'', ''SetLevel'', ''GetLevel'', ''Recent'', ''ListFiles'', ''Write'']"
  by unfold_locales (simp add: LogService_def)

interpretation status_service: ipc_service "''StatusService''" "StatusService env" "[''Get'', ''GC'']"
  by unfold_locales (simp add: StatusService_def)

interpretation version_service: ipc_service "''VersionService''" "VersionService env" "[''Get'']"
  by unfold_locales (simp add: VersionService_def)

interpretation ping_service: ipc_service "''PingService''" "PingService env" "[''Ping'']"
  by unfold_locales (simp add: PingService_def)

interpretation core_service: ipc_service "''CoreService''" "CoreService env" "[''Start'', ''Stop'', ''State'', ''Stats'']"
  by unfold_locales (simp add: CoreService_def)

interpretation node_service: ipc_service "''NodeService''" "NodeService env" "[''Ping'']"
  by unfold_locales (simp add: NodeService_def)

interpretation test_service: ipc_service "''TestService''" "TestService env" "[''CheckIp'']"
  by unfold_locales (simp add: TestService_def)

interpretation subscription_service: ipc_service "''SubscriptionService''" "SubscriptionService env" "[''Fetch'']"
  by unfold_locales (simp add: SubscriptionService_def)

section \<open>Properties\<close>

lemma split_dot_append: "CHR ''.'' \<notin> set a \<Longrightarrow> split_dot acc (a @ CHR ''.'' # b) = (rev acc @ a, b)"
proof (induction a arbitrary: acc)
  case (Cons c a)
  then have "c \<noteq> CHR ''.''" "CHR ''.'' \<notin> set a" by auto
  with Cons.IH [of "c # acc"] show ?case
    by (simp only: append_Cons split_dot.simps if_False rev.simps append_assoc) simp
qed simp

lemma splitServiceMethod_dot: "CHR ''.'' \<notin> set a \<Longrightarrow> splitServiceMethod (a @ CHR ''.'' # b) = (a, b)"
  using split_dot_append [of a "[]" b] by (simp add: splitServiceMethod_def)

text \<open>A small environment and state for the witnesses.\<close>

definition demo_app_env :: "(string \<times> string, string, string) app_env" where
  "demo_app_env = \<lparr>log_env = demo_log_env, init_envs = (\<lambda>_. demo_log_env), feature_env = demo_env, clock_ms = 1000,
     elapsed = ''1ms'', clean_env = \<lparr>ago = (\<lambda>d. - d), listing = Inr [], remove_ok = (\<lambda>_. True)\<rparr>, glob = Inr [],
     runtime_stats = [], go_version = ''go1.26'',
     core_version = ''26.3.27'', read_file = (\<lambda>p. if p = ''/c.json'' then Inr ''{}'' else Inl ''no such file''),
     load_config = (\<lambda>_. Inr \<lparr>c_App = [], c_Inbound = [], c_Outbound = []\<rparr>),
     essentials = [(''stats'', (''stats'', ''noop''))],
     error_text = concat, counters = (\<lambda>_. None), stats_type = ''stats'', is_stats_manager = (\<lambda>_. True),
     dial = (\<lambda>_ _. None), socks_dialer = None, http_get = (\<lambda>_. HttpError ''down''), parse_json = (\<lambda>_. RawInvalid),
     stack = ''goroutine 1'', crash_stamp = ''20260101_000000'', crash_time = ''2026-01-01T00:00:00Z'',
     write_file = (\<lambda>_ _. None)\<rparr>"

definition demo_app :: "(string \<times> string, string, string) app" where
  "demo_app = \<lparr>a_log = initial_xlog (\<lambda>_. []), a_core = Some (NewInstance\<lparr>features := [(''dns'', ''d'')], running := True\<rparr>),
     a_startedAt = 0, a_logHooked = False, a_environ = Map.empty, a_gone = []\<rparr>"

lemma OK_contract: "Success (OK d) = (Error (OK d) = None) \<and> Success (OK d) = (Data (OK d) \<noteq> None)"
  by (cases d) (simp_all add: OK_def Fail_def)

text \<open>C19: the response contract: whatever is asked, and even when a service panics, the answer is either
  a success with data and no error, or a failure with an error and no data.\<close>

theorem invoke_contract:
  "let r = fst (GoInvoke env svc params s) in
   (Success r \<longleftrightarrow> Error r = None) \<and> (Success r \<longleftrightarrow> Data r \<noteq> None)"
proof -
  have "(Success r \<longleftrightarrow> Error r = None) \<and> (Success r \<longleftrightarrow> Data r \<noteq> None)"
    if "Invoke services svc params s = (Inr r, s')" for r services s'
  proof -
    have "r \<in> range Fail \<union> range OK"
      using that by (auto simp: Invoke_def Let_def split: prod.splits if_splits option.splits outcome.splits sum.splits)
    then show ?thesis using OK_contract by (auto simp: Fail_def)
  qed
  note * = this [of "registered env"]
  show ?thesis
  proof (cases "Invoke (registered env) svc params s")
    case (Pair x s')
    show ?thesis
    proof (cases x)
      case (Inl r)
      with Pair show ?thesis by (simp add: GoInvoke_def Let_def Fail_def)
    next
      case (Inr r)
      with Pair have "Invoke (registered env) svc params s = (Inr r, s')" by simp
      from * [OF this] Pair Inr show ?thesis
        unfolding GoInvoke_def Let_def Pair Inr prod.case sum.case fst_conv by blast
    qed
  qed
qed

text \<open>The methods each service offers.\<close>

definition methods_of :: "string \<Rightarrow> string list" where
  "methods_of name = (case map_of
     [(''NodeService'', [''Ping'']),
      (''LogService'', [''Init'', ''SetLevel'', ''GetLevel'', ''Recent'', ''ListFiles'', ''Write'']),
      (''StatusService'', [''Get'', ''GC'']), (''VersionService'', [''Get'']), (''PingService'', [''Ping'']),
      (''CoreService'', [''Start'', ''Stop'', ''State'', ''Stats'']),
      (''SubscriptionService'', [''Fetch'']), (''TestService'', [''CheckIp''])] name of
     None \<Rightarrow> [] | Some ms \<Rightarrow> ms)"

lemma lookup_registered:
  "lookup (registered env) ''NodeService'' = Some (NodeService env)"
  "lookup (registered env) ''LogService'' = Some (LogService env)"
  "lookup (registered env) ''StatusService'' = Some (StatusService env)"
  "lookup (registered env) ''VersionService'' = Some (VersionService env)"
  "lookup (registered env) ''PingService'' = Some (PingService env)"
  "lookup (registered env) ''CoreService'' = Some (CoreService env)"
  "lookup (registered env) ''SubscriptionService'' = Some (SubscriptionService env)"
  "lookup (registered env) ''TestService'' = Some (TestService env)"
  by (simp_all add: lookup_def registered_def)

lemma methods_of_simps:
  "methods_of ''NodeService'' = [''Ping'']"
  "methods_of ''LogService'' = [''Init'', ''SetLevel'', ''GetLevel'', ''Recent'', ''ListFiles'', ''Write'']"
  "methods_of ''StatusService'' = [''Get'', ''GC'']" "methods_of ''VersionService'' = [''Get'']"
  "methods_of ''PingService'' = [''Ping'']"
  "methods_of ''CoreService'' = [''Start'', ''Stop'', ''State'', ''Stats'']"
  "methods_of ''SubscriptionService'' = [''Fetch'']" "methods_of ''TestService'' = [''CheckIp'']"
  by (simp_all add: methods_of_def)

lemma registered_names:
  "fst ` set (registered env) = {''NodeService'', ''LogService'', ''StatusService'', ''VersionService'',
     ''PingService'', ''CoreService'', ''SubscriptionService'', ''TestService''}"
  by (simp add: registered_def)

lemma names_no_dot:
  "\<forall>n \<in> {''NodeService'', ''LogService'', ''StatusService'', ''VersionService'', ''PingService'',
     ''CoreService'', ''SubscriptionService'', ''TestService''}. CHR ''.'' \<notin> set n"
  by simp

text \<open>C27: a method that a service does not offer is refused as a bad request, with no effect, whichever
  service it is; among them \<open>PingService.Panic\<close>, which the header of \<open>services.go\<close> announces.\<close>

theorem unknown_method_refused:
  assumes "name \<in> fst ` set (registered env)" "m \<notin> set (methods_of name)" "m \<noteq> ''''"
  shows "Invoke (registered env) (name @ CHR ''.'' # m) p s =
    (Inr (Fail (NewError ''BAD_REQUEST'' (''unknown method '' @ name @ ''.'' @ m))), s)"
proof -
  have sp: "splitServiceMethod (name @ CHR ''.'' # m) = (name, m)"
    by (rule splitServiceMethod_dot, rule bspec [OF names_no_dot assms(1) [unfolded registered_names]])
  from assms(1) [unfolded registered_names] consider "name = ''NodeService''" | "name = ''LogService''" | "name = ''StatusService''"
    | "name = ''VersionService''" | "name = ''PingService''" | "name = ''CoreService''"
    | "name = ''SubscriptionService''" | "name = ''TestService''"
    by (elim insertE emptyE) (erule that)+
  then show ?thesis
  proof cases
    case 1
    then show ?thesis
      using node_service.dispatch_unknown [OF sp [unfolded 1] _ assms(3) lookup_registered(1)]
        assms(2) by (simp only: 1 methods_of_simps list.distinct simp_thms)
  next
    case 2
    then show ?thesis
      using log_service.dispatch_unknown [OF sp [unfolded 2] _ assms(3) lookup_registered(2)]
        assms(2) by (simp only: 2 methods_of_simps list.distinct simp_thms)
  next
    case 3
    then show ?thesis
      using status_service.dispatch_unknown [OF sp [unfolded 3] _ assms(3) lookup_registered(3)]
        assms(2) by (simp only: 3 methods_of_simps list.distinct simp_thms)
  next
    case 4
    then show ?thesis
      using version_service.dispatch_unknown [OF sp [unfolded 4] _ assms(3) lookup_registered(4)]
        assms(2) by (simp only: 4 methods_of_simps list.distinct simp_thms)
  next
    case 5
    then show ?thesis
      using ping_service.dispatch_unknown [OF sp [unfolded 5] _ assms(3) lookup_registered(5)]
        assms(2) by (simp only: 5 methods_of_simps list.distinct simp_thms)
  next
    case 6
    then show ?thesis
      using core_service.dispatch_unknown [OF sp [unfolded 6] _ assms(3) lookup_registered(6)]
        assms(2) by (simp only: 6 methods_of_simps list.distinct simp_thms)
  next
    case 7
    then show ?thesis
      using subscription_service.dispatch_unknown [OF sp [unfolded 7] _ assms(3) lookup_registered(7)]
        assms(2) by (simp only: 7 methods_of_simps list.distinct simp_thms)
  next
    case 8
    then show ?thesis
      using test_service.dispatch_unknown [OF sp [unfolded 8] _ assms(3) lookup_registered(8)]
        assms(2) by (simp only: 8 methods_of_simps list.distinct simp_thms)
  qed
qed

theorem unknown_method_refused_witness:
  "Invoke (registered demo_app_env) ''PingService.Panic'' RawEmpty demo_app =
    (Inr (Fail (NewError ''BAD_REQUEST'' ''unknown method PingService.Panic'')), demo_app)"
  using unknown_method_refused [of "''PingService''" demo_app_env "''Panic''" RawEmpty demo_app]
  by (simp add: registered_names methods_of_simps)

lemma a_core_log [simp]:
  "a_core (log_info env m x flds s) = a_core s" "a_core (log_warn env m x s) = a_core s"
  "a_environ (log_info env m x flds s) = a_environ s" "a_environ (log_warn env m x s) = a_environ s"
  "a_gone (log_info env m x flds s) = a_gone s" "a_gone (log_warn env m x s) = a_gone s"
  "a_core (hookXrayLog env s) = a_core s" "a_environ (hookXrayLog env s) = a_environ s"
  "a_gone (hookXrayLog env s) = a_gone s"
  by (simp_all add: log_info_def log_warn_def hookXrayLog_def)

text \<open>The instance that a request gives up: closed, if it was running.\<close>

definition given_up :: "('f, 't, 'c) app_env \<Rightarrow> ('f, 't, 'c) app \<Rightarrow> ('f, 't, 'c) xray list" where
  "given_up env s =
     (case a_core s of
        None \<Rightarrow> []
      | Some i \<Rightarrow> [if running i then i\<lparr>running := False, events := events i @ map Closed (features i)\<rparr> else i])"

lemma Close_instance_fst:
  "fst (Close_instance env i) = i\<lparr>running := False, events := events i @ map Closed (features i)\<rparr>"
  by (simp add: Close_instance_def Let_def)

lemma drop_previous_core [simp]:
  "a_core (drop_previous env s) = None" "a_environ (drop_previous env s) = a_environ s"
  "a_gone (drop_previous env s) = a_gone s @ given_up env s"
  using Close_instance_fst [of "feature_env env"]
  by (auto simp: drop_previous_def given_up_def Let_def split: option.split prod.split) (metis fst_conv)+

lemma set_environ_core [simp]:
  "a_core (set_environ p s) = a_core s" "a_gone (set_environ p s) = a_gone s"
  by (simp_all add: set_environ_def Let_def)

lemma set_environ_fd:
  "a_environ (set_environ p s) ''xray.tun.fd'' = (if p_Fd p > 0 then Some (digits (nat (p_Fd p))) else None)"
  by (simp add: set_environ_def Let_def)

lemma Start_running: "running (fst (Start env i))"
  by (simp add: Start_def Let_def split_beta)

text \<open>
  What the configuration file yields: nothing (it cannot be read or parsed, or no instance can be made
  of it), or a new instance, after its start, and the error of that start.
\<close>

definition attempt :: "('f, 't, 'c) app_env \<Rightarrow> string \<Rightarrow> (('f, 't, 'c) xray \<times> string option) option" where
  "attempt env path =
     (case read_file env path of
        Inl _ \<Rightarrow> None
      | Inr data \<Rightarrow>
          (case load_config env data of
             Inl _ \<Rightarrow> None
           | Inr config \<Rightarrow>
               (case New (feature_env env) (essentials env) config of
                  Inl _ \<Rightarrow> None
                | Inr inst \<Rightarrow> Some (Start (feature_env env) inst))))"

text \<open>C6: a start request without a configuration changes nothing. Any other gives up the previous instance,
  and closes it exactly when it was running, whatever becomes of the request (also a panic). Afterwards the core is
  the instance newly made from the configuration, if one was made and started without error, and
  then it is running; otherwise there is no core, and an instance whose start failed has been
  closed. The answer is a success in the first case only, and the TUN descriptor is passed on
  exactly when it is positive.\<close>

theorem core_start_outcome:
  assumes "core_start env p s = (r, s')"
  shows "if p_ConfigLocation p = '''' then s' = s \<and> (\<exists>e. r = Returned (Inl (IpcError e)))
     else let old = (case a_core s of
                       None \<Rightarrow> []
                     | Some i \<Rightarrow> [if running i then fst (Close_instance (feature_env env) i) else i])
          in (case attempt env (p_ConfigLocation p) of
                None \<Rightarrow> a_core s' = None \<and> a_gone s' = a_gone s @ old \<and> (\<nexists>v. r = returns v)
              | Some (i, None) \<Rightarrow> a_core s' = Some i \<and> running i \<and> a_startedAt s' = clock_ms env \<and>
                  a_gone s' = a_gone s @ old \<and> (\<exists>v. r = returns v)
              | Some (i, Some e) \<Rightarrow> a_core s' = None \<and> (\<nexists>v. r = returns v) \<and>
                  a_gone s' = a_gone s @ old @ [fst (Close_instance (feature_env env) i)]) \<and>
             a_environ s' ''xray.tun.fd'' = (if p_Fd p > 0 then Some (digits (nat (p_Fd p))) else None)"
proof (cases "p_ConfigLocation p = ''''")
  case True
  with assms show ?thesis by (auto simp: core_start_def)
next
  case False
  define s1 where "s1 = set_environ p (drop_previous env s)"
  define old where "old = (case a_core s of
      None \<Rightarrow> [] | Some i \<Rightarrow> [if running i then fst (Close_instance (feature_env env) i) else i])"
  have old: "given_up env s = old"
    by (simp add: old_def given_up_def Close_instance_fst split: option.split)
  have s1: "a_core s1 = None" "a_gone s1 = a_gone s @ old"
      "a_environ s1 ''xray.tun.fd'' = (if p_Fd p > 0 then Some (digits (nat (p_Fd p))) else None)"
    by (simp_all add: s1_def set_environ_fd old)
  have "(case attempt env (p_ConfigLocation p) of
          None \<Rightarrow> a_core s' = None \<and> a_gone s' = a_gone s @ old \<and> (\<nexists>v. r = returns v)
        | Some (i, None) \<Rightarrow> a_core s' = Some i \<and> running i \<and> a_startedAt s' = clock_ms env \<and>
            a_gone s' = a_gone s @ old \<and> (\<exists>v. r = returns v)
        | Some (i, Some e) \<Rightarrow> a_core s' = None \<and> (\<nexists>v. r = returns v) \<and>
            a_gone s' = a_gone s @ old @ [fst (Close_instance (feature_env env) i)]) \<and>
      a_environ s' ''xray.tun.fd'' = a_environ s1 ''xray.tun.fd''"
  proof (cases "read_file env (p_ConfigLocation p)")
    case (Inl e)
    then show ?thesis
      using assms False s1 by (simp add: core_start_def attempt_def Let_def flip: s1_def) auto
  next
    case data: (Inr data)
    show ?thesis
    proof (cases "load_config env data")
      case (Inl e)
      then show ?thesis
        using assms False s1 data by (simp add: core_start_def attempt_def Let_def flip: s1_def) auto
    next
      case config: (Inr config)
      show ?thesis
      proof (cases "New (feature_env env) (essentials env) config")
        case (Inl e)
        then show ?thesis
          using assms False s1 data config
          by (cases e) (simp_all add: core_start_def attempt_def Let_def flip: s1_def, auto)
      next
        case inst: (Inr inst)
        obtain inst' e where st: "Start (feature_env env) inst = (inst', e)" by fastforce
        then have run: "running inst'"
          using Start_running [of "feature_env env" inst] by simp
        show ?thesis
          using assms False s1 data config inst st run
          by (cases e) (simp_all add: core_start_def attempt_def Let_def log_info_def flip: s1_def, auto)
      qed
    qed
  qed
  then show ?thesis
    unfolding Let_def old_def [symmetric] s1(3) using False by simp
qed

theorem core_start_outcome_witness:
  "a_core (snd (core_start demo_app_env \<lparr>p_Fd = 5, p_AssetLocation = '''', p_ConfigLocation = ''/missing''\<rparr> demo_app)) = None \<and>
   a_gone (snd (core_start demo_app_env \<lparr>p_Fd = 5, p_AssetLocation = '''', p_ConfigLocation = ''/missing''\<rparr> demo_app)) =
     [NewInstance\<lparr>features := [(''dns'', ''d'')], events := [Closed (''dns'', ''d'')]\<rparr>]"
proof -
  let ?p = "\<lparr>p_Fd = 5, p_AssetLocation = '''', p_ConfigLocation = ''/missing''\<rparr>"
  have "attempt demo_app_env ''/missing'' = None"
    by (simp add: attempt_def demo_app_env_def)
  then show ?thesis
    using core_start_outcome [of demo_app_env ?p demo_app, OF prod.collapse [symmetric]]
    by (simp add: demo_app_def Close_instance_def Let_def NewInstance_def)
qed

text \<open>C39: stopping twice always ends with no core, even when closing the features failed the first time:
  then the error is reported and the closed instance is dropped by the second request. The features
  are closed once in either case.\<close>

theorem core_stop_twice:
  assumes "core_stop env s = (r1, s1)" "core_stop env' s1 = (r2, s2)"
  shows "a_core s2 = None \<and> \<not> is_running s1 \<and> (\<exists>v. r2 = returns v) \<and>
     ((\<exists>v. r1 = returns v) \<longleftrightarrow> a_core s1 = None) \<and>
     a_gone s2 = a_gone s @ (case a_core s of
       None \<Rightarrow> [] | Some i \<Rightarrow> [if running i then fst (Close_instance (feature_env env) i) else i])"
proof (cases "a_core s")
  case None
  with assms show ?thesis by (auto simp: core_stop_def is_running_def)
next
  case (Some i)
  obtain i' e where c: "Close_instance (feature_env env) i = (i', e)" by fastforce
  then have "\<not> running i'" by (auto simp: Close_instance_def Let_def)
  then show ?thesis
    using assms Some c
    by (cases e) (auto simp: core_stop_def is_running_def Let_def split: if_splits)
qed

theorem core_stop_twice_witness:
  "a_core (snd (core_stop demo_app_env (snd (core_stop demo_app_env demo_app)))) = None"
  using core_stop_twice [OF prod.collapse [symmetric] prod.collapse [symmetric], of demo_app_env demo_app_env demo_app]
  by blast

text \<open>C38: an endpoint whose answer has no member \<open>ip\<close> is passed over, whatever else it says: this is the
  form of the answers of \<open>ip-api.com\<close>, the first endpoint, so the location is that of the second,
  which sends none.\<close>

theorem check_ip_skips:
  assumes "http_get env e = HttpResponse 200 t (Inr body)" "parse_json env body = Raw (JObj ms)"
    and "\<forall>(k, v) \<in> set ms. map lower k \<noteq> ''ip''"
  shows "try_endpoints env (e # es) = try_endpoints env es"
proof -
  have step: "set_ip_info k v p = None \<or> (\<exists>q. set_ip_info k v p = Some q \<and> i_IP q = i_IP p)"
    if "k \<noteq> ''ip''" for k v p
    using that by (cases v) (simp_all add: set_ip_info_def)
  have "decode_members set_ip_info ms p = Some q \<Longrightarrow> i_IP q = i_IP p" for p q
    using assms(3)
  proof (induction ms arbitrary: p)
    case (Cons m ms)
    obtain k v where m: "m = (k, v)" by fastforce
    with Cons.prems obtain p' where p': "set_ip_info (map lower k) v p = Some p'"
        "decode_members set_ip_info ms p' = Some q"
      by (auto split: option.splits)
    have "map lower k \<noteq> ''ip''"
      using bspec [OF Cons.prems(2) list.set_intros(1)] unfolding m prod.case .
    from step [OF this, of v p] p'(1) have "i_IP p' = i_IP p" by simp
    moreover have "i_IP q = i_IP p'"
      by (rule Cons.IH [OF p'(2)]) (rule ballI, rule bspec [OF Cons.prems(2)], rule list.set_intros(2))
    ultimately show ?case by simp
  qed simp
  then have none: "i_IP q = ''''" if "decode_members set_ip_info ms \<lparr>i_IP = '''', i_City = '''', i_Region = '''', i_Country = ''''\<rparr> = Some q" for q
    using that by fastforce
  show ?thesis
  proof (cases "decode_members set_ip_info ms \<lparr>i_IP = '''', i_City = '''', i_Region = '''', i_Country = ''''\<rparr>")
    case None
    then show ?thesis using assms(1,2) by simp
  next
    case (Some q)
    with none [of q] show ?thesis using assms(1,2) by simp
  qed
qed

theorem check_ip_skips_witness:
  "try_endpoints (demo_app_env\<lparr>http_get := \<lambda>_. HttpResponse 200 ''200 OK'' (Inr ''x''),
      parse_json := \<lambda>_. Raw (JObj [(''query'', JStr ''1.2.3.4''), (''city'', JStr ''X'')])\<rparr>) [''http://ip-api.com/json/''] = None"
  using check_ip_skips [of "demo_app_env\<lparr>http_get := \<lambda>_. HttpResponse 200 ''200 OK'' (Inr ''x''),
      parse_json := \<lambda>_. Raw (JObj [(''query'', JStr ''1.2.3.4''), (''city'', JStr ''X'')])\<rparr>" "''http://ip-api.com/json/''"
      "''200 OK''" "''x''" "[(''query'', JStr ''1.2.3.4''), (''city'', JStr ''X'')]" "[]"]
  by (simp add: lower_def Let_def)

text \<open>The location is made of the parts that are not empty, separated by commas.\<close>

fun join :: "string list \<Rightarrow> string" where
  "join [] = ''''"
| "join [x] = x"
| "join (x # y # xs) = x @ '', '' @ join (y # xs)"

lemma buildLocation_join:
  "buildLocation info = join (filter (\<lambda>x. x \<noteq> '''') [i_City info, i_Region info, i_Country info])"
  by (auto simp: buildLocation_def Let_def)

end
