(* ===== verification/Net_Address.thy ===== *)
theory Net_Address
  imports Prelude
begin

text \<open>
  \<open>common/net\<close>: addresses, ports and destinations (\<open>address.go\<close>, \<open>port.go\<close>, \<open>network.go\<close>,
  \<open>destination.go\<close>). Strings are their bytes. Of the standard library the code uses \<open>net.ParseIP\<close> and
  \<open>strings.TrimSpace\<close>, which are written out here from their documented grammar.
\<close>

section \<open>Standard library\<close>

definition is_digit :: "byte \<Rightarrow> bool" where
  "is_digit c \<longleftrightarrow> 48 \<le> c \<and> c \<le> 57"

text \<open>Dotted decimal: four numbers up to 255 without leading zeros; \<open>None\<close> is the error.\<close>

fun ipv4_fields :: "bytes \<Rightarrow> bool \<Rightarrow> nat \<Rightarrow> nat \<Rightarrow> bytes \<Rightarrow> bytes option" where
  \<comment> \<open>\<open>prev_dot\<close>: the last character was a dot (or none was read); value and length of the octet; fields so far\<close>
  "ipv4_fields [] prev_dot val len fs =
     (if length fs = 3 \<and> \<not> prev_dot then Some (fs @ [of_nat val]) else None)"
| "ipv4_fields (c # s) prev_dot val len fs =
     (if is_digit c
      then (if len = 1 \<and> val = 0 then None
            else let val = val * 10 + (unat c - 48)
                 in if val > 255 then None else ipv4_fields s False val (len + 1) fs)
      else if c = 46
      then (if prev_dot \<or> s = [] \<or> length fs = 3 then None
            else ipv4_fields s True 0 0 (fs @ [of_nat val]))
      else None)"

definition parse_ipv4 :: "bytes \<Rightarrow> bytes option" where
  "parse_ipv4 s = ipv4_fields s True 0 0 []"

definition hex_value :: "byte \<Rightarrow> nat option" where
  "hex_value c =
     (if is_digit c then Some (unat c - 48)
      else if 97 \<le> c \<and> c \<le> 102 then Some (unat c - 87)
      else if 65 \<le> c \<and> c \<le> 70 then Some (unat c - 55) else None)"

text \<open>One group: its value, its length and what follows; \<open>None\<close> for more than four digits.\<close>

fun hex_group :: "bytes \<Rightarrow> nat \<Rightarrow> nat \<Rightarrow> (nat \<times> nat \<times> bytes) option" where
  "hex_group [] off acc = Some (acc, off, [])"
| "hex_group (c # s) off acc =
     (case hex_value c of
        None \<Rightarrow> Some (acc, off, c # s)
      | Some d \<Rightarrow> if off > 3 then None else hex_group s (off + 1) (acc * 16 + d))"

text \<open>
  The groups of an IPv6 address: the bytes so far and where the ellipsis stands. \<open>fuel\<close> bounds the
  groups: every round adds two bytes and sixteen end the loop, so eight rounds are enough.
\<close>

fun ipv6_groups :: "nat \<Rightarrow> bytes \<Rightarrow> bytes \<Rightarrow> nat option \<Rightarrow> (bytes \<times> nat option) option" where
  "ipv6_groups 0 s ip ell = (if s = [] then Some (ip, ell) else None)"
| "ipv6_groups (Suc n) s ip ell =
     (case hex_group s 0 0 of
        None \<Rightarrow> None
      | Some (acc, off, r) \<Rightarrow>
          if off = 0 then None
          else if r \<noteq> [] \<and> hd r = 46
          then (if ell = None \<and> length ip \<noteq> 12 then None
                else if length ip + 4 > 16 then None
                else case parse_ipv4 s of None \<Rightarrow> None | Some v4 \<Rightarrow> Some (ip @ v4, ell))
          else
            let ip = ip @ [of_nat (acc div 256), of_nat (acc mod 256)]
            in case r of
                 [] \<Rightarrow> Some (ip, ell)
               | c # s \<Rightarrow>
                   if c \<noteq> 58 \<or> s = [] then None
                   else if hd s = 58
                   then (if ell \<noteq> None then None
                         else if tl s = [] then Some (ip, Some (length ip))
                         else ipv6_groups n (tl s) ip (Some (length ip)))
                   else ipv6_groups n s ip ell)"

definition parse_ipv6 :: "bytes \<Rightarrow> bytes option" where
  "parse_ipv6 s =
     (if s = [58, 58] then Some (replicate 16 0)
      else
        case (if take 2 s = [58, 58] then ipv6_groups 8 (drop 2 s) [] (Some 0) else ipv6_groups 8 s [] None) of
          None \<Rightarrow> None
        | Some (ip, ell) \<Rightarrow>
            (case ell of
               None \<Rightarrow> if length ip = 16 then Some ip else None
             | Some e \<Rightarrow>
                 if length ip \<ge> 16 then None
                 else Some (take e ip @ replicate (16 - length ip) 0 @ drop e ip)))"

text \<open>\<open>net.ParseIP\<close>: by the first of dot, colon and percent sign; a zone is refused; always 16 bytes.\<close>

definition v4_mapped :: "bytes \<Rightarrow> bytes" where
  "v4_mapped ip = replicate 10 0 @ [0xff, 0xff] @ ip"

definition ParseIP :: "bytes \<Rightarrow> bytes option" where
  "ParseIP s =
     (case dropWhile (\<lambda>c. c \<noteq> 46 \<and> c \<noteq> 58 \<and> c \<noteq> 37) s of
        [] \<Rightarrow> None
      | c # _ \<Rightarrow>
          if c = 46 then map_option v4_mapped (parse_ipv4 s)
          else if c = 58 then (if 37 \<in> set s then None else parse_ipv6 s)
          else None)"

text \<open>\<open>strings.TrimSpace\<close>: the UTF-8 encodings of the characters that Unicode calls white space.\<close>

definition spaces :: "bytes list" where
  "spaces = [[9], [10], [11], [12], [13], [32], [0xc2, 0x85], [0xc2, 0xa0], [0xe1, 0x9a, 0x80]] @
     map (\<lambda>n. [0xe2, 0x80, of_nat n]) [0x80..<0x8b] @
     [[0xe2, 0x80, 0xa8], [0xe2, 0x80, 0xa9], [0xe2, 0x80, 0xaf], [0xe2, 0x81, 0x9f], [0xe3, 0x80, 0x80]]"

fun trim_left :: "bytes list \<Rightarrow> nat \<Rightarrow> bytes \<Rightarrow> bytes" where
  "trim_left sp 0 s = s"
| "trim_left sp (Suc n) s =
     (case find (\<lambda>w. take (length w) s = w) sp of
        None \<Rightarrow> s
      | Some w \<Rightarrow> trim_left sp n (drop (length w) s))"

definition TrimSpace :: "bytes \<Rightarrow> bytes" where
  "TrimSpace s =
     (let l = trim_left spaces (length s) s in rev (trim_left (map rev spaces) (length l) (rev l)))"

section \<open>Addresses\<close>

datatype family = AddressFamilyIPv4 | AddressFamilyIPv6 | AddressFamilyDomain

datatype address = Ipv4 bytes | Ipv6 bytes | Domain bytes

fun Family :: "address \<Rightarrow> family" where
  "Family (Ipv4 _) = AddressFamilyIPv4"
| "Family (Ipv6 _) = AddressFamilyIPv6"
| "Family (Domain _) = AddressFamilyDomain"

definition IsIP :: "family \<Rightarrow> bool" where
  "IsIP af = (af = AddressFamilyIPv4 \<or> af = AddressFamilyIPv6)"

text \<open>\<open>IP()\<close> and \<open>Domain()\<close> panic on the other kind.\<close>

fun IP :: "address \<Rightarrow> bytes option" where
  "IP (Ipv4 b) = Some b"
| "IP (Ipv6 b) = Some b"
| "IP (Domain _) = None"

fun Domain_of :: "address \<Rightarrow> bytes option" where
  "Domain_of (Domain d) = Some d"
| "Domain_of _ = None"

text \<open>\<open>None\<close> is the nil interface returned for a slice of another length.\<close>

definition IPAddress :: "bytes \<Rightarrow> address option" where
  "IPAddress ip =
     (if length ip = 4 then Some (Ipv4 ip)
      else if length ip = 16
      then (if take 10 ip = replicate 10 0 \<and> ip ! 10 = 0xff \<and> ip ! 11 = 0xff
            then Some (Ipv4 (take 4 (drop 12 ip))) else Some (Ipv6 ip))
      else None)"

definition DomainAddress :: "bytes \<Rightarrow> address" where
  "DomainAddress d = Domain d"

definition isAlphaNum :: "byte \<Rightarrow> bool" where
  "isAlphaNum c \<longleftrightarrow> is_digit c \<or> (97 \<le> c \<and> c \<le> 122) \<or> (65 \<le> c \<and> c \<le> 90)"

definition ParseAddress :: "bytes \<Rightarrow> address option" where
  "ParseAddress addr =
     (let addr = (if addr \<noteq> [] \<and> hd addr = 91 \<and> last addr = 93 then take (length addr - 2) (drop 1 addr) else addr);
          addr = (if addr \<noteq> [] \<and> (\<not> isAlphaNum (hd addr) \<or> \<not> isAlphaNum (last addr)) then TrimSpace addr else addr)
      in case ParseIP addr of
           Some ip \<Rightarrow> IPAddress ip
         | None \<Rightarrow> Some (DomainAddress addr))"

section \<open>Ports\<close>

definition PortFromInt :: "u32 \<Rightarrow> u16 option" where
  "PortFromInt val = (if val > 65535 then None else Some (ucast val))"

record port_range =
  From :: u16
  To :: u16

definition range_Contains :: "port_range \<Rightarrow> u16 \<Rightarrow> bool" where
  "range_Contains r p \<longleftrightarrow> From r \<le> p \<and> p \<le> To r"

text \<open>The ranges of the protobuf message are 32 bits wide; the conversion keeps the low half.\<close>

definition PortListFromProto :: "(u32 \<times> u32) list \<Rightarrow> port_range list" where
  "PortListFromProto l = map (\<lambda>(a, b). \<lparr>From = ucast a, To = ucast b\<rparr>) l"

definition list_Contains :: "port_range list \<Rightarrow> u16 \<Rightarrow> bool" where
  "list_Contains mpl p = list_ex (\<lambda>r. range_Contains r p) mpl"

section \<open>Destinations\<close>

datatype network = Network_Unknown | Network_TCP | Network_UDP | Network_UNIX

definition HasNetwork :: "network list \<Rightarrow> network \<Rightarrow> bool" where
  "HasNetwork xs n = list_ex (\<lambda>v. v = n) xs"

record destination =
  Address :: "address option"
  Port :: u16
  Network :: network

definition TCPDestination :: "address \<Rightarrow> u16 \<Rightarrow> destination" where
  "TCPDestination a p = \<lparr>Address = Some a, Port = p, Network = Network_TCP\<rparr>"

definition UDPDestination :: "address \<Rightarrow> u16 \<Rightarrow> destination" where
  "UDPDestination a p = \<lparr>Address = Some a, Port = p, Network = Network_UDP\<rparr>"

definition UnixDestination :: "address \<Rightarrow> destination" where
  "UnixDestination a = \<lparr>Address = Some a, Port = 0, Network = Network_UNIX\<rparr>"

definition no_destination :: destination where
  "no_destination = \<lparr>Address = None, Port = 0, Network = Network_Unknown\<rparr>"

definition IsValid :: "destination \<Rightarrow> bool" where
  "IsValid d = (Network d \<noteq> Network_Unknown)"

section \<open>Lemmas\<close>

lemma IPAddress_ip [simp]: "length ip = 4 \<Longrightarrow> IPAddress ip = Some (Ipv4 ip)"
  by (simp add: IPAddress_def)

lemma ParseIP_none: "\<forall>c \<in> set s. c \<noteq> 46 \<and> c \<noteq> 58 \<and> c \<noteq> 37 \<Longrightarrow> ParseIP s = None"
  by (simp add: ParseIP_def dropWhile_eq_Nil_conv [THEN iffD2] split: list.split)

lemma ipv4_fields_length: "ipv4_fields s d v l fs = Some ip \<Longrightarrow> length ip = 4"
  by (induction s d v l fs rule: ipv4_fields.induct) (auto simp: Let_def split: if_splits)

lemma ParseIP_length: "ParseIP s = Some ip \<Longrightarrow> length ip = 16"
  by (auto simp: ParseIP_def parse_ipv4_def v4_mapped_def parse_ipv6_def ipv4_fields_length
      split: list.splits if_splits option.splits)

end
