(* ===== verification/Address_Codec.thy ===== *)
theory Address_Codec
  imports Net_Address Buf
begin

text \<open>
  \<open>common/protocol/address.go\<close>: the address serialiser shared by the proxy protocols. The buffer the
  reader fills is a fresh one, given by its content (its capacity is \<open>buf_Size\<close>); the input is the
  bytes still to come, at whose end \<open>io.ReadFull\<close> fails; the writer always accepts everything.
\<close>

section \<open>Parsers\<close>

record parser =
  addrTypeMap :: "byte \<Rightarrow> family option"
  addrByteMap :: "family \<Rightarrow> byte"
  portFirst :: bool
  typeParser :: "(byte \<Rightarrow> byte) option"

datatype addr_option =
    PortThenAddress
  | AddressFamilyByte byte family
  | WithAddressTypeParser "byte \<Rightarrow> byte"

definition afInvalid :: byte where "afInvalid = 255"

text \<open>\<open>None\<close> is the panic of \<open>AddressFamilyByte\<close>.\<close>

fun apply_option :: "parser \<Rightarrow> addr_option \<Rightarrow> parser option" where
  "apply_option o1 PortThenAddress = Some (o1\<lparr>portFirst := True\<rparr>)"
| "apply_option o1 (AddressFamilyByte b f) =
     (if b \<ge> 16 then None
      else Some (o1\<lparr>addrTypeMap := (addrTypeMap o1)(b := Some f), addrByteMap := (addrByteMap o1)(f := b)\<rparr>))"
| "apply_option o1 (WithAddressTypeParser atp) = Some (o1\<lparr>typeParser := Some atp\<rparr>)"

fun apply_options :: "addr_option list \<Rightarrow> parser \<Rightarrow> parser option" where
  "apply_options [] o1 = Some o1"
| "apply_options (opt # opts) o1 =
     (case apply_option o1 opt of None \<Rightarrow> None | Some o2 \<Rightarrow> apply_options opts o2)"

definition NewAddressParser :: "addr_option list \<Rightarrow> parser option" where
  "NewAddressParser options = apply_options options
     \<lparr>addrTypeMap = (\<lambda>_. None), addrByteMap = (\<lambda>_. afInvalid), portFirst = False, typeParser = None\<rparr>"

section \<open>Reading\<close>

datatype addr_error = ReadError | UnknownAddressType byte | InvalidDomain bytes | UnknownFamily | DomainTooLong | NilIP

text \<open>\<open>ReadFullFrom\<close>: the buffer grows by exactly \<open>n\<close> bytes of the input, or the call fails.\<close>

definition ReadFullFrom :: "bytes \<Rightarrow> nat \<Rightarrow> bytes \<Rightarrow> addr_error + bytes \<times> bytes" where
  "ReadFullFrom b n inp =
     (if length b + n > buf_Size \<or> length inp < n then Inl ReadError
      else Inr (b @ take n inp, drop n inp))"

text \<open>\<open>BytesFrom(-n)\<close>: for \<open>n = 0\<close> this is \<open>BytesFrom(0)\<close>, the whole content.\<close>

definition BytesFrom_minus :: "bytes \<Rightarrow> nat \<Rightarrow> bytes" where
  "BytesFrom_minus b n = (if n = 0 then b else drop (length b - n) b)"

definition readPort :: "bytes \<Rightarrow> bytes \<Rightarrow> addr_error + u16 \<times> bytes \<times> bytes" where
  "readPort b inp =
     (case ReadFullFrom b 2 inp of
        Inl e \<Rightarrow> Inl e
      | Inr (b, inp) \<Rightarrow> Inr (get_u16 (BytesFrom_minus b 2), b, inp))"

definition maybeIPPrefix :: "byte \<Rightarrow> bool" where
  "maybeIPPrefix b \<longleftrightarrow> b = 91 \<or> (48 \<le> b \<and> b \<le> 57)"

text \<open>
  The code ranges over the runes of the string; a byte of a multi-byte rune, or an invalid one, is
  not among the letters, so the bytes decide.
\<close>

definition isValidDomain :: "bytes \<Rightarrow> bool" where
  "isValidDomain d = list_all (\<lambda>c. (48 \<le> c \<and> c \<le> 57) \<or> (97 \<le> c \<and> c \<le> 122) \<or> (65 \<le> c \<and> c \<le> 90) \<or>
     c = 45 \<or> c = 46 \<or> c = 95) d"

definition read_domain :: "bytes \<Rightarrow> addr_error + address" where
  "read_domain domain =
     (case (if maybeIPPrefix (hd domain) then ParseAddress domain else None) of
        Some (Ipv4 ip) \<Rightarrow> Inr (Ipv4 ip)
      | Some (Ipv6 ip) \<Rightarrow> Inr (Ipv6 ip)
      | _ \<Rightarrow> if \<not> isValidDomain domain then Inl (InvalidDomain domain) else Inr (DomainAddress domain))"

definition readAddress :: "parser \<Rightarrow> bytes \<Rightarrow> bytes \<Rightarrow> addr_error + address \<times> bytes \<times> bytes" where
  "readAddress p b inp =
     (case ReadFullFrom b 1 inp of
        Inl e \<Rightarrow> Inl e
      | Inr (b, inp) \<Rightarrow>
          let addrType = last b;
              addrType = (case typeParser p of None \<Rightarrow> addrType | Some f \<Rightarrow> f addrType)
          in if addrType \<ge> 16 then Inl (UnknownAddressType addrType)
             else case addrTypeMap p addrType of
               None \<Rightarrow> Inl (UnknownAddressType addrType)
             | Some AddressFamilyIPv4 \<Rightarrow>
                 (case ReadFullFrom b 4 inp of
                    Inl e \<Rightarrow> Inl e
                  | Inr (b, inp) \<Rightarrow>
                      (case IPAddress (BytesFrom_minus b 4) of
                         None \<Rightarrow> Inl NilIP | Some a \<Rightarrow> Inr (a, b, inp)))
             | Some AddressFamilyIPv6 \<Rightarrow>
                 (case ReadFullFrom b 16 inp of
                    Inl e \<Rightarrow> Inl e
                  | Inr (b, inp) \<Rightarrow>
                      (case IPAddress (BytesFrom_minus b 16) of
                         None \<Rightarrow> Inl NilIP | Some a \<Rightarrow> Inr (a, b, inp)))
             | Some AddressFamilyDomain \<Rightarrow>
                 (case ReadFullFrom b 1 inp of
                    Inl e \<Rightarrow> Inl e
                  | Inr (b, inp) \<Rightarrow>
                      let domainLength = unat (last b) in
                      case ReadFullFrom b domainLength inp of
                        Inl e \<Rightarrow> Inl e
                      | Inr (b, inp) \<Rightarrow>
                          (case read_domain (BytesFrom_minus b domainLength) of
                             Inl e \<Rightarrow> Inl e
                           | Inr a \<Rightarrow> Inr (a, b, inp))))"

definition ReadAddressPort :: "parser \<Rightarrow> bytes \<Rightarrow> bytes \<Rightarrow> addr_error + address \<times> u16 \<times> bytes" where
  "ReadAddressPort p b inp =
     (if portFirst p
      then case readPort b inp of
             Inl e \<Rightarrow> Inl e
           | Inr (port, b, inp) \<Rightarrow>
               (case readAddress p b inp of Inl e \<Rightarrow> Inl e | Inr (addr, b, inp) \<Rightarrow> Inr (addr, port, inp))
      else case readAddress p b inp of
             Inl e \<Rightarrow> Inl e
           | Inr (addr, b, inp) \<Rightarrow>
               (case readPort b inp of Inl e \<Rightarrow> Inl e | Inr (port, b, inp) \<Rightarrow> Inr (addr, port, inp)))"

section \<open>Writing\<close>

definition isDomainTooLong :: "bytes \<Rightarrow> bool" where
  "isDomainTooLong d \<longleftrightarrow> length d > 256"

fun writeAddress :: "parser \<Rightarrow> address \<Rightarrow> addr_error + bytes" where
  "writeAddress p (Domain domain) =
     (let tb = addrByteMap p AddressFamilyDomain in
      if tb = afInvalid then Inl UnknownFamily
      else if isDomainTooLong domain then Inl DomainTooLong
      else Inr ([tb, of_nat (length domain)] @ domain))"
| "writeAddress p (Ipv4 ip) =
     (let tb = addrByteMap p AddressFamilyIPv4 in
      if tb = afInvalid then Inl UnknownFamily else Inr ([tb] @ ip))"
| "writeAddress p (Ipv6 ip) =
     (let tb = addrByteMap p AddressFamilyIPv6 in
      if tb = afInvalid then Inl UnknownFamily else Inr ([tb] @ ip))"

definition writePort :: "u16 \<Rightarrow> bytes" where
  "writePort port = put_u16 port"

definition WriteAddressPort :: "parser \<Rightarrow> address \<Rightarrow> u16 \<Rightarrow> addr_error + bytes" where
  "WriteAddressPort p addr port =
     (case writeAddress p addr of
        Inl e \<Rightarrow> Inl e
      | Inr b \<Rightarrow> Inr (if portFirst p then writePort port @ b else b @ writePort port))"

section \<open>The codec\<close>

text \<open>The parser knows the family, under one byte, both ways.\<close>

definition knows :: "parser \<Rightarrow> family \<Rightarrow> bool" where
  "knows p f \<longleftrightarrow> addrByteMap p f \<noteq> afInvalid \<and>
     (let t = (case typeParser p of None \<Rightarrow> addrByteMap p f | Some g \<Rightarrow> g (addrByteMap p f))
      in t < 16 \<and> addrTypeMap p t = Some f)"

text \<open>Addresses the reader gives back: IP addresses in their own form, names that are no IP address.\<close>

fun canonical :: "address \<Rightarrow> bool" where
  "canonical (Ipv4 ip) = (length ip = 4)"
| "canonical (Ipv6 ip) = (length ip = 16 \<and> IPAddress ip = Some (Ipv6 ip))"
| "canonical (Domain d) = (d \<noteq> [] \<and> length d \<le> 255 \<and> read_domain d = Inr (Domain d))"

definition addr_wf :: "parser \<Rightarrow> address \<times> u16 \<Rightarrow> bool" where
  "addr_wf p x \<longleftrightarrow> knows p (Family (fst x)) \<and> canonical (fst x)"

definition addr_enc :: "parser \<Rightarrow> address \<times> u16 \<Rightarrow> bytes" where
  "addr_enc p x = (case WriteAddressPort p (fst x) (snd x) of Inl _ \<Rightarrow> [] | Inr b \<Rightarrow> b)"

definition addr_dec :: "parser \<Rightarrow> bytes \<Rightarrow> ((address \<times> u16) \<times> bytes) option" where
  "addr_dec p inp = (case ReadAddressPort p [] inp of Inl _ \<Rightarrow> None | Inr (a, port, r) \<Rightarrow> Some ((a, port), r))"

lemma ReadFullFrom_append:
  "length b + length x \<le> buf_Size \<Longrightarrow> ReadFullFrom b (length x) (x @ r) = Inr (b @ x, r)"
  by (simp add: ReadFullFrom_def)

lemma BytesFrom_minus_append: "x \<noteq> [] \<Longrightarrow> BytesFrom_minus (b @ x) (length x) = x"
  by (simp add: BytesFrom_minus_def)

lemma put_u16_length [simp]: "length (put_u16 w) = 2"
  by (simp add: put_u16_def)

lemma readPort_put:
  assumes "length b + 2 \<le> buf_Size"
  shows "readPort b (put_u16 port @ r) = Inr (port, b @ put_u16 port, r)"
proof -
  have "put_u16 port \<noteq> []" by (simp add: put_u16_def)
  then show ?thesis
    using assms ReadFullFrom_append [of b "put_u16 port" r] BytesFrom_minus_append [of "put_u16 port" b]
      get_put_u16 [of port "[]"]
    by (simp add: readPort_def)
qed

lemma ReadFullFrom_one: "length b < buf_Size \<Longrightarrow> ReadFullFrom b 1 (x # xs) = Inr (b @ [x], xs)"
  by (simp add: ReadFullFrom_def)

lemma readAddress_write:
  assumes "knows p (Family a)" "canonical a" "length b + 300 \<le> buf_Size" "writeAddress p a = Inr w"
  shows "readAddress p b (w @ r) = Inr (a, b @ w, r)"
proof -
  define t where "t = addrByteMap p (Family a)"
  have kn: "(case typeParser p of None \<Rightarrow> t | Some f \<Rightarrow> f t) < 16"
    "addrTypeMap p (case typeParser p of None \<Rightarrow> t | Some f \<Rightarrow> f t) = Some (Family a)"
    using assms(1) unfolding knows_def Let_def t_def [symmetric] by blast+
  have one: "ReadFullFrom b 1 (t # xs) = Inr (b @ [t], xs)" for xs
    using assms(3) by (intro ReadFullFrom_one) simp
  show ?thesis
  proof (cases a)
    case (Ipv4 ip)
    then have w: "w = t # ip" and ip: "length ip = 4"
      using assms by (auto simp: Let_def t_def split: if_splits)
    have "ReadFullFrom (b @ [t]) 4 (ip @ r) = Inr (b @ t # ip, r)"
      using ReadFullFrom_append [of "b @ [t]" ip r] ip assms(3) by simp
    moreover have "BytesFrom_minus (b @ t # ip) 4 = ip"
      using BytesFrom_minus_append [of ip "b @ [t]"] ip by fastforce
    ultimately show ?thesis
      using kn Ipv4 ip unfolding w readAddress_def append_Cons one Let_def sum.case prod.case last_snoc
      by (simp add: not_le)
  next
    case (Ipv6 ip)
    then have w: "w = t # ip" and ip: "length ip = 16" "IPAddress ip = Some (Ipv6 ip)"
      using assms by (auto simp: Let_def t_def split: if_splits)
    have "ReadFullFrom (b @ [t]) 16 (ip @ r) = Inr (b @ t # ip, r)"
      using ReadFullFrom_append [of "b @ [t]" ip r] ip assms(3) by simp
    moreover have "BytesFrom_minus (b @ t # ip) 16 = ip"
      using BytesFrom_minus_append [of ip "b @ [t]"] ip(1) by fastforce
    ultimately show ?thesis
      using kn Ipv6 ip unfolding w readAddress_def append_Cons one Let_def sum.case prod.case last_snoc
      by (simp add: not_le)
  next
    case (Domain d)
    then have w: "w = t # of_nat (length d) # d"
      and d: "d \<noteq> []" "length d \<le> 255" "read_domain d = Inr (Domain d)"
      using assms by (auto simp: Let_def t_def split: if_splits)
    have l: "unat (of_nat (length d) :: byte) = length d"
      using d(2) by (simp add: unat_of_nat take_bit_eq_mod)
    have "ReadFullFrom (b @ [t]) 1 (of_nat (length d) # d @ r) = Inr (b @ [t, of_nat (length d)], d @ r)"
      using ReadFullFrom_one [of "b @ [t]"] assms(3) by simp
    moreover have "ReadFullFrom (b @ [t, of_nat (length d)]) (length d) (d @ r) = Inr (b @ t # of_nat (length d) # d, r)"
      using ReadFullFrom_append [of "b @ [t, of_nat (length d)]" d r] d(2) assms(3) by simp
    moreover have "BytesFrom_minus (b @ t # of_nat (length d) # d) (length d) = d"
      using BytesFrom_minus_append [of d "b @ [t, of_nat (length d)]"] d(1) by simp
    ultimately show ?thesis
      using kn Domain d unfolding w readAddress_def append_Cons one Let_def sum.case prod.case last_snoc
      by (simp add: not_le l)
  qed
qed

lemma writeAddress_ok:
  assumes "knows p (Family a)" "canonical a"
  obtains w where "writeAddress p a = Inr w" "w \<noteq> []" "length w \<le> 257"
  using assms by (cases a) (auto simp: knows_def Let_def isDomainTooLong_def)

lemma read_write_address_port:
  assumes "addr_wf p (a, port)"
  shows "addr_dec p (addr_enc p (a, port) @ r) = Some ((a, port), r)" "addr_enc p (a, port) \<noteq> []"
proof -
  from assms have k: "knows p (Family a)" "canonical a" by (simp_all add: addr_wf_def)
  then obtain w where w: "writeAddress p a = Inr w" "w \<noteq> []" "length w \<le> 257"
    by (rule writeAddress_ok)
  note rd = readAddress_write [OF k _ w(1)]
  show "addr_dec p (addr_enc p (a, port) @ r) = Some ((a, port), r)"
    using w rd [of "put_u16 port" r] rd [of "[]" "put_u16 port @ r"] readPort_put [of "[]" port] readPort_put [of w port]
    by (simp add: addr_enc_def addr_dec_def WriteAddressPort_def ReadAddressPort_def writePort_def buf_Size_def)
  show "addr_enc p (a, port) \<noteq> []"
    using w by (simp add: addr_enc_def WriteAddressPort_def)
qed

interpretation addr_codec: prefix_codec "addr_enc p" "addr_dec p" "\<lambda>x. x" "addr_wf p"
  by unfold_locales (auto simp: read_write_address_port)

section \<open>Properties\<close>

lemma read_domain_plain:
  assumes "d \<noteq> []" "\<not> maybeIPPrefix (hd d)" "isValidDomain d"
  shows "read_domain d = Inr (Domain d)"
  using assms by (simp add: read_domain_def DomainAddress_def)

text \<open>A name of length 0 is read as the whole buffer, which holds the length byte 0: it is refused.\<close>

lemma readAddress_zero_domain:
  assumes "knows p AddressFamilyDomain" "length b + 2 \<le> buf_Size"
  shows "readAddress p b (addrByteMap p AddressFamilyDomain # 0 # r) =
    (case read_domain (b @ [addrByteMap p AddressFamilyDomain, 0]) of
       Inl e \<Rightarrow> Inl e | Inr a \<Rightarrow> Inr (a, b @ [addrByteMap p AddressFamilyDomain, 0], r))"
proof -
  define t where "t = addrByteMap p AddressFamilyDomain"
  have kn: "(case typeParser p of None \<Rightarrow> t | Some f \<Rightarrow> f t) < 16"
    "addrTypeMap p (case typeParser p of None \<Rightarrow> t | Some f \<Rightarrow> f t) = Some AddressFamilyDomain"
    using assms(1) unfolding knows_def Let_def t_def [symmetric] by blast+
  have one: "ReadFullFrom b 1 (t # 0 # r) = Inr (b @ [t], 0 # r)"
    "ReadFullFrom (b @ [t]) 1 (0 # r) = Inr (b @ [t, 0], r)"
    using assms(2) ReadFullFrom_one [of b] ReadFullFrom_one [of "b @ [t]"] by simp_all
  have "ReadFullFrom (b @ [t, 0]) 0 r = Inr (b @ [t, 0], r)"
    using assms(2) by (simp add: ReadFullFrom_def)
  moreover have "last (b @ [t, 0]) = 0" by simp
  moreover have "\<not> 16 \<le> (case typeParser p of None \<Rightarrow> t | Some f \<Rightarrow> f t)"
    using kn(1) by (simp only: not_le)
  ultimately show ?thesis
    using kn(2) unfolding t_def [symmetric] readAddress_def one Let_def sum.case prod.case last_snoc
    by (simp add: BytesFrom_minus_def)
qed

text \<open>A name that ends in the byte 0 is read as an IP address or refused.\<close>

lemma read_domain_zero: "read_domain (b @ [t, 0]) \<noteq> Inr (Domain d)"
  by (auto simp: read_domain_def isValidDomain_def split: option.splits address.splits)

lemma address_roundtrip_aux:
  assumes "knows p (Family a)" "canonical a" "WriteAddressPort p a port = Inr w"
  shows "ReadAddressPort p [] (w @ r) = Inr (a, port, r)"
proof -
  have "addr_dec p (addr_enc p (a, port) @ r) = Some ((a, port), r)"
    using addr_codec.dec_enc [of p "(a, port)" r] assms(1,2) by (simp add: addr_wf_def)
  then show ?thesis
    using assms(3) by (auto simp: addr_enc_def addr_dec_def split: sum.splits prod.splits)
qed

text \<open>The parser of the multiplexer.\<close>

definition mux_addrParser :: parser where
  "mux_addrParser = the (NewAddressParser [AddressFamilyByte 1 AddressFamilyIPv4,
     AddressFamilyByte 2 AddressFamilyDomain, AddressFamilyByte 3 AddressFamilyIPv6, PortThenAddress])"

lemma mux_addrParser_simps:
  "addrByteMap mux_addrParser AddressFamilyIPv4 = 1" "addrByteMap mux_addrParser AddressFamilyDomain = 2"
  "addrByteMap mux_addrParser AddressFamilyIPv6 = 3" "typeParser mux_addrParser = None"
  "portFirst mux_addrParser" "addrTypeMap mux_addrParser 1 = Some AddressFamilyIPv4"
  "addrTypeMap mux_addrParser 2 = Some AddressFamilyDomain" "addrTypeMap mux_addrParser 3 = Some AddressFamilyIPv6"
  by (simp_all add: mux_addrParser_def NewAddressParser_def word_le_nat_alt)

lemma knows_mux [simp]: "knows mux_addrParser f"
  by (cases f) (simp_all add: knows_def mux_addrParser_simps afInvalid_def)

text \<open>C12: an address and port written by a parser that knows the family are read back exactly, whatever
  follows them, provided an IP address is in its own form and a name is one the reader takes for a
  name of at most 255 bytes.\<close>

theorem address_roundtrip:
  assumes "knows p (Family a)" "canonical a" "WriteAddressPort p a port = Inr w"
  shows "ReadAddressPort p [] (w @ r) = Inr (a, port, r)"
  using assms by (rule address_roundtrip_aux)

theorem address_roundtrip_witness:
  "ReadAddressPort mux_addrParser [] ([1, 187, 2, 5, 97, 46, 99, 111, 109] @ [9, 9]) = Inr (Domain [97, 46, 99, 111, 109], 443, [9, 9])"
proof (rule address_roundtrip)
  have "read_domain [97, 46, 99, 111, 109] = Inr (Domain [97, 46, 99, 111, 109])"
    by (rule read_domain_plain) (simp_all add: maybeIPPrefix_def isValidDomain_def)
  then show "canonical (Domain [97, 46, 99, 111, 109])" by simp
  show "WriteAddressPort mux_addrParser (Domain [97, 46, 99, 111, 109]) 443 = Inr [1, 187, 2, 5, 97, 46, 99, 111, 109]"
    by (simp add: WriteAddressPort_def mux_addrParser_simps afInvalid_def isDomainTooLong_def writePort_def put_u16_def)
qed simp

text \<open>C34: the length check of the writer is off by one: a name of 256 bytes is accepted and written with
  the length byte 0, and whatever follows it, what was written is never read as a domain name
  again - neither this name nor another.\<close>

theorem long_domain_corrupts:
  assumes "knows p AddressFamilyDomain" "length d = 256"
    and "w = addrByteMap p AddressFamilyDomain # 0 # d"
  shows "WriteAddressPort p (Domain d) port = Inr (if portFirst p then put_u16 port @ w else w @ put_u16 port) \<and>
    (\<forall>d' port' rest. ReadAddressPort p [] ((if portFirst p then put_u16 port @ w else w @ put_u16 port) @ r) \<noteq>
       Inr (Domain d', port', rest))"
proof -
  have "(of_nat 256 :: byte) = 0" by simp
  then have wr: "writeAddress p (Domain d) = Inr w"
    using assms by (simp add: knows_def isDomainTooLong_def)
  show ?thesis
  proof (cases "portFirst p")
    case True
    have "readAddress p (put_u16 port) (w @ r) \<noteq> Inr (Domain d', b, rest)" for d' b rest
      using readAddress_zero_domain [OF assms(1), of "put_u16 port" "d @ r"] read_domain_zero
      by (auto simp: buf_Size_def assms(3) split: sum.splits)
    with wr True readPort_put [of "[]" port "w @ r"] show ?thesis
      by (auto simp: WriteAddressPort_def ReadAddressPort_def writePort_def buf_Size_def
          split: sum.splits)
  next
    case False
    have "readAddress p [] (w @ put_u16 port @ r) \<noteq> Inr (Domain d', b, rest)" for d' b rest
      using readAddress_zero_domain [OF assms(1), of "[]" "d @ put_u16 port @ r"]
        read_domain_zero [of "[]"]
      by (auto simp: buf_Size_def assms(3) split: sum.splits)
    with wr False show ?thesis
      by (auto simp: WriteAddressPort_def ReadAddressPort_def writePort_def split: sum.splits)
  qed
qed

theorem long_domain_corrupts_witness:
  "WriteAddressPort mux_addrParser (Domain (replicate 256 97)) 443 = Inr ([1, 187, 2, 0] @ replicate 256 97) \<and>
   ReadAddressPort mux_addrParser [] ([1, 187, 2, 0] @ replicate 256 97 @ [1, 2]) \<noteq>
     Inr (Domain (replicate 256 97), 443, [1, 2])"
proof -
  have k: "knows mux_addrParser AddressFamilyDomain" "addrByteMap mux_addrParser AddressFamilyDomain = 2"
    "portFirst mux_addrParser" "put_u16 443 = [1, 187]"
    by (simp_all add: mux_addrParser_simps put_u16_def)
  have l: "length (replicate 256 (97 :: byte)) = 256" by (rule length_replicate)
  show ?thesis
    using long_domain_corrupts [OF k(1) l refl, of 443 "[1, 2]"]
    unfolding k(2,4) if_P [OF k(3)] append.simps by blast
qed

end
