(* ===== verification/Mux_Frame.thy ===== *)
theory Mux_Frame
  imports Address_Codec
begin

text \<open>
  \<open>common/mux/frame.go\<close>, \<open>writer.go\<close> and \<open>reader.go\<close>: the frames of the multiplexer. A frame is the
  length of its metadata, the metadata, and, when the option says so, the length of the data and
  the data. Buffers that are filled from empty are their contents; \<open>udp\<close> is the field \<open>UDP\<close> of the
  buffer that is written to.
\<close>

section \<open>Metadata\<close>

definition SessionStatusNew :: byte where "SessionStatusNew = 1"
definition SessionStatusKeep :: byte where "SessionStatusKeep = 2"
definition SessionStatusEnd :: byte where "SessionStatusEnd = 3"
definition SessionStatusKeepAlive :: byte where "SessionStatusKeepAlive = 4"

definition OptionData :: byte where "OptionData = 1"
definition OptionError :: byte where "OptionError = 2"

definition TargetNetworkTCP :: byte where "TargetNetworkTCP = 1"
definition TargetNetworkUDP :: byte where "TargetNetworkUDP = 2"

lemmas mux_consts = SessionStatusNew_def SessionStatusKeep_def SessionStatusEnd_def SessionStatusKeepAlive_def
  OptionData_def OptionError_def TargetNetworkTCP_def TargetNetworkUDP_def

definition Has :: "byte \<Rightarrow> byte \<Rightarrow> bool" where
  "Has b bb \<longleftrightarrow> b AND bb \<noteq> 0"

definition Set_bits :: "byte \<Rightarrow> byte \<Rightarrow> byte" where
  "Set_bits b bb = b OR bb"

record frame_meta =
  Target :: destination
  SessionID :: u16
  Option :: byte
  SessionStatus :: byte
  GlobalID :: bytes
  Inbound :: "(destination \<times> destination) option"

definition empty_meta :: frame_meta where
  "empty_meta = \<lparr>Target = no_destination, SessionID = 0, Option = 0, SessionStatus = 0,
     GlobalID = replicate 8 0, Inbound = None\<rparr>"

text \<open>An address that is nil makes the writer panic.\<close>

datatype 'a written = Written 'a | Refused addr_error | Crashed

definition write_target :: "address option \<Rightarrow> u16 \<Rightarrow> bytes written" where
  "write_target a port =
     (case a of
        None \<Rightarrow> Crashed
      | Some a \<Rightarrow>
          (case WriteAddressPort mux_addrParser a port of Inl e \<Rightarrow> Refused e | Inr w \<Rightarrow> Written w))"

fun bind_written :: "'a written \<Rightarrow> ('a \<Rightarrow> 'b written) \<Rightarrow> 'b written" where
  "bind_written (Written x) f = f x"
| "bind_written (Refused e) f = Refused e"
| "bind_written Crashed f = Crashed"

definition network_byte :: "network \<Rightarrow> bytes" where
  "network_byte n = (case n of Network_TCP \<Rightarrow> [TargetNetworkTCP] | Network_UDP \<Rightarrow> [TargetNetworkUDP] | _ \<Rightarrow> [])"

text \<open>A source or local destination of the inbound: written when its network is TCP or UDP.\<close>

definition write_inbound :: "destination \<times> destination \<Rightarrow> bytes written" where
  "write_inbound i =
     (if Network (fst i) \<in> {Network_TCP, Network_UDP}
      then bind_written (write_target (Address (fst i)) (Port (fst i))) (\<lambda>src.
        if Network (snd i) \<in> {Network_TCP, Network_UDP}
        then bind_written (write_target (Address (snd i)) (Port (snd i))) (\<lambda>loc.
          Written (network_byte (Network (fst i)) @ src @ network_byte (Network (snd i)) @ loc))
        else Written (network_byte (Network (fst i)) @ src))
      else Written [])"

text \<open>What follows identifier, status and option.\<close>

definition meta_tail :: "frame_meta \<Rightarrow> destination option \<Rightarrow> bytes written" where
  "meta_tail f udp =
     (if SessionStatus f = SessionStatusNew
      then bind_written (write_target (Address (Target f)) (Port (Target f))) (\<lambda>t.
        bind_written
          (case Inbound f of
             Some i \<Rightarrow> write_inbound i
           | None \<Rightarrow> Written (if udp \<noteq> None then GlobalID f else []))
          (\<lambda>r. Written (network_byte (Network (Target f)) @ t @ r)))
      else case udp of
        None \<Rightarrow> Written []
      | Some d \<Rightarrow>
          \<comment> \<open>the error of this write is dropped\<close>
          (case write_target (Address d) (Port d) of
             Written w \<Rightarrow> Written (TargetNetworkUDP # w)
           | Refused e \<Rightarrow>
               Written (TargetNetworkUDP # (if portFirst mux_addrParser then writePort (Port d) else []))
           | Crashed \<Rightarrow> Crashed))"

definition WriteTo :: "frame_meta \<Rightarrow> destination option \<Rightarrow> bytes written" where
  "WriteTo f udp =
     bind_written (meta_tail f udp) (\<lambda>tail.
       let body = put_u16 (SessionID f) @ [SessionStatus f, Option f] @ tail
       in Written (put_u16 (of_nat (length body)) @ body))"

section \<open>Reading metadata\<close>

datatype frame_error = MetaTooLong | ShortRead | InsufficientBuffer | BadAddress addr_error | UnknownNetwork byte

definition dest_of :: "byte \<Rightarrow> address \<Rightarrow> u16 \<Rightarrow> destination option" where
  "dest_of network a p =
     (if network = TargetNetworkTCP then Some (TCPDestination a p)
      else if network = TargetNetworkUDP then Some (UDPDestination a p) else None)"

text \<open>A network byte, an address and a port: the destination and what is left in the buffer.\<close>

definition read_dest :: "byte \<Rightarrow> bytes \<Rightarrow> frame_error + destination \<times> bytes" where
  "read_dest network b =
     (case ReadAddressPort mux_addrParser [] b of
        Inl e \<Rightarrow> Inl (BadAddress e)
      | Inr (a, p, b) \<Rightarrow>
          (case dest_of network a p of None \<Rightarrow> Inl (UnknownNetwork network) | Some d \<Rightarrow> Inr (d, b)))"

definition read_source_local :: "frame_meta \<Rightarrow> bytes \<Rightarrow> frame_error + frame_meta" where
  "read_source_local f b =
     (let f = f\<lparr>Inbound := Some (no_destination, no_destination)\<rparr> in
      if b = [] \<or> hd b = 0 then Inr f
      else case read_dest (hd b) (tl b) of
        Inl e \<Rightarrow> Inl e
      | Inr (src, b) \<Rightarrow>
          let f = f\<lparr>Inbound := Some (src, no_destination)\<rparr> in
          if b = [] \<or> hd b = 0 then Inr f
          else case read_dest (hd b) (tl b) of
            Inl e \<Rightarrow> Inl e
          | Inr (loc, b) \<Rightarrow> Inr (f\<lparr>Inbound := Some (src, loc)\<rparr>))"

definition UnmarshalFromBuffer :: "frame_meta \<Rightarrow> bytes \<Rightarrow> bool \<Rightarrow> frame_error + frame_meta" where
  "UnmarshalFromBuffer f b readSourceAndLocal =
     (if length b < 4 then Inl InsufficientBuffer
      else
        let f = f\<lparr>SessionID := get_u16 b, SessionStatus := b ! 2, Option := b ! 3,
                  Target := (Target f)\<lparr>Network := Network_Unknown\<rparr>\<rparr>;
            rest =
              (if SessionStatus f = SessionStatusNew \<or>
                  (SessionStatus f = SessionStatusKeep \<and> length b > 4 \<and> b ! 4 = TargetNetworkUDP)
               then if length b < 8 then Inl InsufficientBuffer
                    else (case read_dest (b ! 4) (drop 5 b) of
                            Inl e \<Rightarrow> Inl e
                          | Inr (d, b) \<Rightarrow> Inr (f\<lparr>Target := d\<rparr>, b))
               else Inr (f, b))
        in case rest of
             Inl e \<Rightarrow> Inl e
           | Inr (f, b) \<Rightarrow>
               if SessionStatus f = SessionStatusNew \<and> readSourceAndLocal then read_source_local f b
               else if SessionStatus f = SessionStatusNew \<and> Has (Option f) OptionData \<and>
                       Network (Target f) = Network_UDP \<and> length b \<ge> 8
                    then Inr (f\<lparr>GlobalID := take 8 b\<rparr>)
                    else Inr f)"

definition Unmarshal_frame :: "frame_meta \<Rightarrow> bytes \<Rightarrow> bool \<Rightarrow> frame_error + frame_meta \<times> bytes" where
  "Unmarshal_frame f inp readSourceAndLocal =
     (if length inp < 2 then Inl ShortRead
      else
        let metaLen = unat (get_u16 inp); inp = drop 2 inp in
        if metaLen > 512 then Inl MetaTooLong
        else if length inp < metaLen then Inl ShortRead
        else case UnmarshalFromBuffer f (take metaLen inp) readSourceAndLocal of
          Inl e \<Rightarrow> Inl e
        | Inr f \<Rightarrow> Inr (f, drop metaLen inp))"

section \<open>The writer\<close>

datatype transfer_type = TransferTypeStream | TransferTypePacket

record mux_writer =
  w_dest :: destination
  w_id :: u16
  w_followup :: bool
  w_hasError :: bool
  w_transferType :: transfer_type
  w_globalID :: bytes
  w_inbound :: "(destination \<times> destination) option"

definition NewWriter ::
  "u16 \<Rightarrow> destination \<Rightarrow> transfer_type \<Rightarrow> bytes \<Rightarrow> (destination \<times> destination) option \<Rightarrow> mux_writer" where
  "NewWriter sid dest tt gid inbound =
     \<lparr>w_dest = dest, w_id = sid, w_followup = False, w_hasError = False, w_transferType = tt,
      w_globalID = gid, w_inbound = inbound\<rparr>"

definition NewResponseWriter :: "u16 \<Rightarrow> transfer_type \<Rightarrow> mux_writer" where
  "NewResponseWriter sid tt =
     \<lparr>w_dest = no_destination, w_id = sid, w_followup = True, w_hasError = False, w_transferType = tt,
      w_globalID = replicate 8 0, w_inbound = None\<rparr>"

definition getNextFrameMeta :: "mux_writer \<Rightarrow> frame_meta \<times> mux_writer" where
  "getNextFrameMeta w =
     (let meta = empty_meta\<lparr>SessionID := w_id w, Target := w_dest w, GlobalID := w_globalID w, Inbound := w_inbound w\<rparr>
      in if w_followup w then (meta\<lparr>SessionStatus := SessionStatusKeep\<rparr>, w)
         else (meta\<lparr>SessionStatus := SessionStatusNew\<rparr>, w\<lparr>w_followup := True\<rparr>))"

text \<open>A chunk is its bytes and the \<open>UDP\<close> field of its buffer, when it is a single one.\<close>

type_synonym chunk = "bytes \<times> destination option"

text \<open>\<open>writeMetaWithFrame\<close>: the bytes handed to the underlying writer in one call.\<close>

definition writeMetaWithFrame :: "frame_meta \<Rightarrow> chunk \<Rightarrow> bytes written" where
  "writeMetaWithFrame meta data =
     bind_written (WriteTo meta (snd data)) (\<lambda>frame.
       Written (frame @ put_u16 (of_nat (length (fst data))) @ fst data))"

definition writeData :: "mux_writer \<Rightarrow> chunk \<Rightarrow> bytes written \<times> mux_writer" where
  "writeData w data =
     (let (meta, w) = getNextFrameMeta w
      in (writeMetaWithFrame (meta\<lparr>Option := Set_bits (Option meta) OptionData\<rparr>) data, w))"

definition writeMetaOnly :: "mux_writer \<Rightarrow> bytes written \<times> mux_writer" where
  "writeMetaOnly w = (let (meta, w) = getNextFrameMeta w in (WriteTo meta None, w))"

text \<open>The loop over the chunks; it ends at the first that is refused.\<close>

fun writeChunks :: "mux_writer \<Rightarrow> chunk list \<Rightarrow> bytes list \<times> unit written \<times> mux_writer" where
  "writeChunks w [] = ([], Written (), w)"
| "writeChunks w (c # cs) =
     (case writeData w c of
        (Written b, w) \<Rightarrow> (let (bs, r, w) = writeChunks w cs in (b # bs, r, w))
      | (Refused e, w) \<Rightarrow> ([], Refused e, w)
      | (Crashed, w) \<Rightarrow> ([], Crashed, w))"

text \<open>
  How \<open>WriteMultiBuffer\<close> cuts its data: a stream into pieces of at most 8 KiB (its buffers carry no
  address; \<open>p\<close> is the array of a new buffer), packets one by one, up to the last that is not empty.
\<close>

partial_function (option) stream_chunks :: "bytes \<Rightarrow> multi_buffer \<Rightarrow> multi_buffer list option" where
  "stream_chunks p mb =
     (if MultiBuffer_IsEmpty mb then Some []
      else Option.bind (SplitSize p mb (8 * 1024)) (\<lambda>(mb, c).
             Option.bind (stream_chunks p mb) (\<lambda>cs. Some (c # cs))))"

fun packet_chunks :: "chunk list \<Rightarrow> chunk list" where
  "packet_chunks [] = []"
| "packet_chunks (c # cs) = (if list_all (\<lambda>d. fst d = []) (c # cs) then [] else c # packet_chunks cs)"

definition Writer_stream :: "bytes \<Rightarrow> mux_writer \<Rightarrow> multi_buffer \<Rightarrow> (bytes list \<times> unit written \<times> mux_writer) option" where
  "Writer_stream p w mb =
     (if MultiBuffer_IsEmpty mb
      then Some (case writeMetaOnly w of
                   (Written b, w) \<Rightarrow> ([b], Written (), w) | (Refused e, w) \<Rightarrow> ([], Refused e, w) | (Crashed, w) \<Rightarrow> ([], Crashed, w))
      else map_option (\<lambda>cs. writeChunks w (map (\<lambda>c. (mb_bytes c, None)) cs)) (stream_chunks p mb))"

definition Writer_packets :: "mux_writer \<Rightarrow> chunk list \<Rightarrow> bytes list \<times> unit written \<times> mux_writer" where
  "Writer_packets w mb =
     (if list_all (\<lambda>c. fst c = []) mb
      then (case writeMetaOnly w of
              (Written b, w) \<Rightarrow> ([b], Written (), w) | (Refused e, w) \<Rightarrow> ([], Refused e, w) | (Crashed, w) \<Rightarrow> ([], Crashed, w))
      else writeChunks w (packet_chunks mb))"

definition Writer_Close :: "mux_writer \<Rightarrow> bytes written" where
  "Writer_Close w =
     (let meta = empty_meta\<lparr>SessionID := w_id w, SessionStatus := SessionStatusEnd\<rparr>;
          meta = (if w_hasError w then meta\<lparr>Option := Set_bits (Option meta) OptionError\<rparr> else meta)
      in WriteTo meta None)"

section \<open>Reading data\<close>

text \<open>The data of one frame; \<open>eof\<close> is set once it was read.\<close>

definition PacketReader_ReadMultiBuffer :: "bool \<Rightarrow> bytes \<Rightarrow> (bytes \<times> bytes) option" where
  "PacketReader_ReadMultiBuffer eof inp =
     (if eof \<or> length inp < 2 then None
      else let sz = unat (get_u16 inp); inp = drop 2 inp in
        if sz > buf_Size \<or> length inp < sz then None else Some (take sz inp, drop sz inp))"

text \<open>A frame as its handler reads it: the metadata, and the data if the option announces them.\<close>

definition read_frame :: "bytes \<Rightarrow> ((frame_meta \<times> bytes option) \<times> bytes) option" where
  "read_frame inp =
     (case Unmarshal_frame empty_meta inp False of
        Inl e \<Rightarrow> None
      | Inr (f, inp) \<Rightarrow>
          if Has (Option f) OptionData
          then map_option (\<lambda>(d, inp). ((f, Some d), inp)) (PacketReader_ReadMultiBuffer False inp)
          else Some ((f, None), inp))"

section \<open>Frames are read as they were written\<close>

definition meta_wf :: "frame_meta \<Rightarrow> destination option \<Rightarrow> bool" where
  "meta_wf f udp \<longleftrightarrow> length (GlobalID f) = 8 \<and> Inbound f = None \<and>
     (if SessionStatus f = SessionStatusNew
      then Network (Target f) \<in> {Network_TCP, Network_UDP} \<and> (\<exists>a. Address (Target f) = Some a \<and> canonical a)
      else case udp of
        None \<Rightarrow> True
      | Some d \<Rightarrow> SessionStatus f = SessionStatusKeep \<and> Network d = Network_UDP \<and>
          (\<exists>a. Address d = Some a \<and> canonical a))"

definition meta_view :: "frame_meta \<Rightarrow> destination option \<Rightarrow> frame_meta" where
  "meta_view f udp =
     f\<lparr>Target := (if SessionStatus f = SessionStatusNew then Target f
                  else case udp of None \<Rightarrow> no_destination | Some d \<Rightarrow> d),
       GlobalID := (if SessionStatus f = SessionStatusNew \<and> Has (Option f) OptionData \<and>
                       Network (Target f) = Network_UDP \<and> udp \<noteq> None
                    then GlobalID f else replicate 8 0)\<rparr>"

lemma write_target_canonical:
  assumes "canonical a"
  obtains w where "write_target (Some a) port = Written w" "length w \<le> 259" "w \<noteq> []" "3 \<le> length w"
    "\<And>r. ReadAddressPort mux_addrParser [] (w @ r) = Inr (a, port, r)"
proof -
  obtain v where v: "writeAddress mux_addrParser a = Inr v" "v \<noteq> []" "length v \<le> 257"
    using writeAddress_ok [OF knows_mux assms] .
  then have w: "WriteAddressPort mux_addrParser a port = Inr (put_u16 port @ v)"
    by (simp add: WriteAddressPort_def writePort_def mux_addrParser_simps)
  show ?thesis
  proof (rule that)
    show "write_target (Some a) port = Written (put_u16 port @ v)" by (simp add: write_target_def w)
    show "ReadAddressPort mux_addrParser [] ((put_u16 port @ v) @ r) = Inr (a, port, r)" for r
      using address_roundtrip_aux [OF knows_mux assms w] by simp
    show "3 \<le> length (put_u16 port @ v)" using v(2) by (cases v) simp_all
  qed (use v in auto)
qed

lemma unat_len16: "n < 65536 \<Longrightarrow> unat (of_nat n :: u16) = n"
  by (simp add: unat_of_nat take_bit_eq_mod)

lemma Unmarshal_body:
  assumes "length body \<le> 512" "UnmarshalFromBuffer f body rsl = Inr g"
  shows "Unmarshal_frame f (put_u16 (of_nat (length body)) @ body @ r) rsl = Inr (g, r)"
  using assms get_put_u16 [of "of_nat (length body)" "body @ r"]
  by (simp add: Unmarshal_frame_def Let_def unat_len16)

lemma dest_of_network:
  "Network d \<in> {Network_TCP, Network_UDP} \<Longrightarrow> Address d = Some a \<Longrightarrow>
    \<exists>n. network_byte (Network d) = [n] \<and> dest_of n a (Port d) = Some d"
  by (cases d) (auto simp: network_byte_def dest_of_def mux_consts TCPDestination_def UDPDestination_def
      intro: exI [of _ "1 :: byte"])

lemma body_fields:
  "get_u16 (put_u16 i @ [s, c] @ x) = i" "(put_u16 i @ [s, c] @ x) ! 2 = s" "(put_u16 i @ [s, c] @ x) ! 3 = c"
  "drop 5 (put_u16 i @ [s, c] @ n # x) = x" "(put_u16 i @ [s, c] @ n # x) ! 4 = n"
  by (simp add: get_put_u16) (simp_all add: put_u16_def)

lemma Unmarshal_WriteTo:
  assumes wf: "meta_wf f udp" and w: "WriteTo f udp = Written w"
  shows "Unmarshal_frame empty_meta (w @ r) False = Inr (meta_view f udp, r)"
proof -
  obtain tail where tail: "meta_tail f udp = Written tail"
      and wb: "w = put_u16 (of_nat (length (put_u16 (SessionID f) @ [SessionStatus f, Option f] @ tail))) @
        put_u16 (SessionID f) @ [SessionStatus f, Option f] @ tail"
    using w by (cases "meta_tail f udp") (auto simp: WriteTo_def Let_def)
  let ?body = "put_u16 (SessionID f) @ [SessionStatus f, Option f] @ tail"
  have "length ?body \<le> 512 \<and> UnmarshalFromBuffer empty_meta ?body False = Inr (meta_view f udp)"
  proof (cases "SessionStatus f = SessionStatusNew")
    case True
    then obtain a where a: "Address (Target f) = Some a" "canonical a"
        and net: "Network (Target f) \<in> {Network_TCP, Network_UDP}"
      using wf by (auto simp: meta_wf_def)
    obtain t where t: "write_target (Some a) (Port (Target f)) = Written t" "length t \<le> 259" "3 \<le> length t"
      and rd: "\<And>r. ReadAddressPort mux_addrParser [] (t @ r) = Inr (a, Port (Target f), r)"
      using write_target_canonical [OF a(2)] by metis
    obtain n where n: "network_byte (Network (Target f)) = [n]" "dest_of n a (Port (Target f)) = Some (Target f)"
      using dest_of_network [OF net a(1)] by blast
    define g where "g = (if udp \<noteq> None then GlobalID f else [])"
    have g: "length g \<le> 8" using wf by (simp add: g_def meta_wf_def)
    have tl: "tail = n # t @ g"
      using tail True wf a t n by (simp add: meta_tail_def meta_wf_def g_def)
    have "read_dest n (t @ g) = Inr (Target f, g)"
      by (simp add: read_dest_def rd n)
    then show ?thesis
      using True t(2,3) g wf unfolding tl UnmarshalFromBuffer_def Let_def body_fields
      by (auto simp: g_def meta_view_def meta_wf_def empty_meta_def mux_consts)
  next
    case False
    show ?thesis
    proof (cases udp)
      case None
      then have "tail = []" using tail False by (simp add: meta_tail_def)
      then show ?thesis
        using False None wf unfolding UnmarshalFromBuffer_def Let_def body_fields
        by (auto simp: meta_view_def meta_wf_def empty_meta_def no_destination_def)
    next
      case (Some d)
      then obtain a where a: "Address d = Some a" "canonical a" "Network d = Network_UDP"
          "SessionStatus f = SessionStatusKeep"
        using wf False by (auto simp: meta_wf_def)
      obtain t where t: "write_target (Some a) (Port d) = Written t" "length t \<le> 259" "3 \<le> length t"
        and rd: "\<And>r. ReadAddressPort mux_addrParser [] (t @ r) = Inr (a, Port d, r)"
        using write_target_canonical [OF a(2)] by metis
      have tl: "tail = TargetNetworkUDP # t"
        using tail False Some a t by (simp add: meta_tail_def)
      have "dest_of TargetNetworkUDP a (Port d) = Some d"
        using a by (cases d) (simp add: dest_of_def mux_consts UDPDestination_def)
      then have "read_dest TargetNetworkUDP t = Inr (d, [])"
        using rd [of "[]"] by (simp add: read_dest_def)
      then show ?thesis
        using False Some a t(2,3) wf unfolding tl UnmarshalFromBuffer_def Let_def body_fields
        by (auto simp: meta_view_def meta_wf_def empty_meta_def mux_consts)
    qed
  qed
  then show ?thesis
    using Unmarshal_body [of ?body empty_meta False "meta_view f udp" r] by (simp add: wb)
qed

lemma WriteTo_ok:
  assumes "meta_wf f udp"
  obtains w where "WriteTo f udp = Written w" "w \<noteq> []"
proof -
  have "\<exists>tail. meta_tail f udp = Written tail"
  proof (cases "SessionStatus f = SessionStatusNew")
    case True
    with assms obtain a where a: "Address (Target f) = Some a" "canonical a" by (auto simp: meta_wf_def)
    obtain t where "write_target (Some a) (Port (Target f)) = Written t"
      using write_target_canonical [OF a(2)] by metis
    with True a assms show ?thesis by (simp add: meta_tail_def meta_wf_def)
  next
    case False
    show ?thesis
    proof (cases udp)
      case (Some d)
      with assms False obtain a where a: "Address d = Some a" "canonical a" by (auto simp: meta_wf_def)
      obtain t where "write_target (Some a) (Port d) = Written t"
        using write_target_canonical [OF a(2)] by metis
      with Some a False show ?thesis by (simp add: meta_tail_def)
    qed (simp add: meta_tail_def False)
  qed
  then obtain tail where "meta_tail f udp = Written tail" ..
  then have "WriteTo f udp = Written (put_u16 (of_nat (length (put_u16 (SessionID f) @ [SessionStatus f, Option f] @ tail))) @
      put_u16 (SessionID f) @ [SessionStatus f, Option f] @ tail)"
    by (simp add: WriteTo_def Let_def)
  then show ?thesis by (rule that) (simp add: put_u16_def)
qed

text \<open>A frame with data, as the writer makes it.\<close>

type_synonym data_frame = "frame_meta \<times> chunk"

definition frame_wf :: "data_frame \<Rightarrow> bool" where
  "frame_wf x \<longleftrightarrow> meta_wf (fst x) (snd (snd x)) \<and> Has (Option (fst x)) OptionData \<and> length (fst (snd x)) \<le> buf_Size"

definition frame_enc :: "data_frame \<Rightarrow> bytes" where
  "frame_enc x = (case writeMetaWithFrame (fst x) (snd x) of Written w \<Rightarrow> w | _ \<Rightarrow> [])"

definition frame_view :: "data_frame \<Rightarrow> frame_meta \<times> bytes option" where
  "frame_view x = (meta_view (fst x) (snd (snd x)), Some (fst (snd x)))"

lemma frame_enc_ok:
  assumes "frame_wf x"
  shows "writeMetaWithFrame (fst x) (snd x) = Written (frame_enc x) \<and> frame_enc x \<noteq> []"
proof -
  obtain w where "WriteTo (fst x) (snd (snd x)) = Written w" "w \<noteq> []"
    using WriteTo_ok [of "fst x" "snd (snd x)"] assms unfolding frame_wf_def by blast
  then show ?thesis by (simp add: frame_enc_def writeMetaWithFrame_def)
qed

lemma PacketReader_put:
  "length d \<le> buf_Size \<Longrightarrow> PacketReader_ReadMultiBuffer False (put_u16 (of_nat (length d)) @ d @ r) = Some (d, r)"
  by (simp add: PacketReader_ReadMultiBuffer_def Let_def get_put_u16 unat_len16 buf_Size_def)

lemma read_frame_enc: "frame_wf x \<Longrightarrow> read_frame (frame_enc x @ r) = Some (frame_view x, r)"
proof -
  assume wf: "frame_wf x"
  then obtain w where w: "WriteTo (fst x) (snd (snd x)) = Written w"
    using WriteTo_ok [of "fst x" "snd (snd x)"] unfolding frame_wf_def by blast
  have e: "frame_enc x = w @ put_u16 (of_nat (length (fst (snd x)))) @ fst (snd x)"
    by (simp add: frame_enc_def writeMetaWithFrame_def w)
  have "Option (meta_view (fst x) (snd (snd x))) = Option (fst x)"
    by (simp add: meta_view_def)
  with wf show ?thesis
    using Unmarshal_WriteTo [OF _ w, of "put_u16 (of_nat (length (fst (snd x)))) @ fst (snd x) @ r"]
      PacketReader_put [of "fst (snd x)" r]
    by (simp add: read_frame_def e frame_wf_def frame_view_def)
qed

interpretation frame_codec: prefix_codec frame_enc read_frame frame_view frame_wf
  by unfold_locales (simp_all add: read_frame_enc frame_enc_ok)

text \<open>The frames of a connection.\<close>

lemma read_frame_shorter: "read_frame b = Some (x, r) \<Longrightarrow> length r < length b"
  by (auto simp: read_frame_def Unmarshal_frame_def PacketReader_ReadMultiBuffer_def Let_def
      split: sum.splits prod.splits if_splits)

function read_frames :: "bytes \<Rightarrow> (frame_meta \<times> bytes option) list" where
  "read_frames b =
     (if b = [] then []
      else case read_frame b of None \<Rightarrow> [] | Some (x, r) \<Rightarrow> x # read_frames r)"
  by pat_completeness auto
termination
  by (relation "measure length") (auto dest: read_frame_shorter)

declare read_frames.simps [simp del]

interpretation frames: packet_reader frame_enc read_frame frame_view frame_wf read_frames
  by unfold_locales (subst read_frames.simps, simp split: option.split)

section \<open>The writer\<close>

lemma stream_chunks_spec:
  assumes "list_all fits mb"
  shows "\<exists>cs. stream_chunks p mb = Some cs \<and> mb_bytes (concat cs) = mb_bytes mb \<and>
    (\<forall>c \<in> set cs. length (mb_bytes c) \<le> buf_Size)"
  using assms
proof (induction "length (mb_bytes mb) + length mb" arbitrary: mb rule: less_induct)
  case less
  show ?case
  proof (cases "MultiBuffer_IsEmpty mb")
    case True
    then have "mb_bytes mb = []"
      using less.prems by (induction mb) (auto simp: MultiBuffer_IsEmpty_def Buffer_IsEmpty_content)
    with True show ?thesis by (subst stream_chunks.simps) simp
  next
    case False
    then have ne: "mb \<noteq> []" by (auto simp: MultiBuffer_IsEmpty_def)
    obtain rest r where s: "SplitSize p mb (8 * 1024) = Some (rest, r)" "list_all fits rest"
        "mb_bytes r @ mb_bytes rest = mb_bytes mb" "int (length (mb_bytes r)) \<le> 8192"
        "length (mb_bytes rest) + length rest < length (mb_bytes mb) + length mb"
      using SplitSize_spec [OF less.prems ne, of "8 * 1024" p] by (auto simp: buf_Size_def)
    from less.hyps [OF s(5,2)] obtain cs where "stream_chunks p rest = Some cs"
        "mb_bytes (concat cs) = mb_bytes rest" "\<forall>c \<in> set cs. length (mb_bytes c) \<le> buf_Size" by blast
    with s False show ?thesis
      by (subst stream_chunks.simps) (auto simp: buf_Size_def)
  qed
qed

definition writer_ok :: "mux_writer \<Rightarrow> bool" where
  "writer_ok w \<longleftrightarrow> length (w_globalID w) = 8 \<and> w_inbound w = None \<and>
     (\<not> w_followup w \<longrightarrow> Network (w_dest w) \<in> {Network_TCP, Network_UDP} \<and>
        (\<exists>a. Address (w_dest w) = Some a \<and> canonical a))"

definition chunk_ok :: "chunk \<Rightarrow> bool" where
  "chunk_ok c \<longleftrightarrow> length (fst c) \<le> buf_Size \<and>
     (case snd c of None \<Rightarrow> True | Some d \<Rightarrow> Network d = Network_UDP \<and> (\<exists>a. Address d = Some a \<and> canonical a))"

definition data_meta :: "mux_writer \<Rightarrow> frame_meta" where
  "data_meta w = (fst (getNextFrameMeta w))\<lparr>Option := OptionData\<rparr>"

text \<open>The frames a list of chunks is sent as: the first opens the session, if that was not done.\<close>

fun frames_of :: "mux_writer \<Rightarrow> chunk list \<Rightarrow> data_frame list" where
  "frames_of w [] = []"
| "frames_of w (c # cs) = (data_meta w, c) # frames_of (w\<lparr>w_followup := True\<rparr>) cs"

lemma getNextFrameMeta_snd: "snd (getNextFrameMeta w) = w\<lparr>w_followup := True\<rparr>"
  by (simp add: getNextFrameMeta_def Let_def)

lemma data_meta_simps [simp]:
  "Option (data_meta w) = OptionData" "SessionID (data_meta w) = w_id w" "Target (data_meta w) = w_dest w"
  "GlobalID (data_meta w) = w_globalID w" "Inbound (data_meta w) = w_inbound w"
  "SessionStatus (data_meta w) = (if w_followup w then SessionStatusKeep else SessionStatusNew)"
  by (simp_all add: data_meta_def getNextFrameMeta_def Let_def)

lemma Has_Data: "Has OptionData OptionData"
  by (simp add: Has_def OptionData_def)

lemma frame_wf_data: "writer_ok w \<Longrightarrow> chunk_ok c \<Longrightarrow> frame_wf (data_meta w, c)"
  by (auto simp: frame_wf_def meta_wf_def writer_ok_def chunk_ok_def mux_consts Has_def split: option.split)

lemma writer_ok_followup: "writer_ok w \<Longrightarrow> writer_ok (w\<lparr>w_followup := True\<rparr>)"
  by (simp add: writer_ok_def)

lemma writeData_frame:
  "writeData w c = (writeMetaWithFrame (data_meta w) c, w\<lparr>w_followup := True\<rparr>)"
  by (simp add: writeData_def data_meta_def getNextFrameMeta_def Let_def empty_meta_def Set_bits_def)

lemma frames_of_wf: "writer_ok w \<Longrightarrow> list_all chunk_ok cs \<Longrightarrow> list_all frame_wf (frames_of w cs)"
  by (induction cs arbitrary: w) (simp_all add: frame_wf_data writer_ok_followup)

lemma writeChunks_frames:
  assumes "writer_ok w" "list_all chunk_ok cs"
  shows "writeChunks w cs = (map frame_enc (frames_of w cs), Written (),
    if cs = [] then w else w\<lparr>w_followup := True\<rparr>)"
  using assms
proof (induction cs arbitrary: w)
  case (Cons c cs)
  have "writeMetaWithFrame (data_meta w) c = Written (frame_enc (data_meta w, c))"
    using frame_enc_ok [OF frame_wf_data [of w c]] Cons.prems by simp
  then show ?case
    using Cons.IH [OF writer_ok_followup] Cons.prems by (simp add: writeData_frame)
qed simp

lemma frames_of_data: "map (snd \<circ> frame_view) (frames_of w cs) = map (Some \<circ> fst) cs"
  by (induction cs arbitrary: w) (simp_all add: frame_view_def)

lemma frames_of_id: "\<forall>x \<in> set (frames_of w cs). SessionID (fst (frame_view x)) = w_id w"
  by (induction cs arbitrary: w) (auto simp: frame_view_def meta_view_def)

lemma frames_of_status:
  "map (SessionStatus \<circ> fst \<circ> frame_view) (frames_of w cs) =
    (case cs of [] \<Rightarrow> [] | _ # r \<Rightarrow> (if w_followup w then SessionStatusKeep else SessionStatusNew) #
       replicate (length r) SessionStatusKeep)"
  by (induction cs arbitrary: w) (auto simp: frame_view_def meta_view_def split: list.split)

lemma read_writeChunks:
  assumes "writer_ok w" "list_all chunk_ok cs"
  shows "read_frames (concat (fst (writeChunks w cs))) = map frame_view (frames_of w cs)"
  using frames.loop_packet [OF frames_of_wf [OF assms]] writeChunks_frames [OF assms] by simp

lemma packet_chunks_ok: "list_all chunk_ok cs \<Longrightarrow> list_all chunk_ok (packet_chunks cs)"
  by (induction cs) auto

section \<open>Properties\<close>

definition demo_writer :: mux_writer where
  "demo_writer = NewWriter 7 (TCPDestination (Ipv4 [1, 2, 3, 4]) 80) TransferTypeStream (replicate 8 0) None"

lemma demo_writer_ok: "writer_ok demo_writer"
  by (simp add: demo_writer_def NewWriter_def writer_ok_def TCPDestination_def)

text \<open>C3: whatever a session writes as a stream arrives: the frames read from what the writer hands on are
  all of its session, the first of a new session opens it with the destination, the others keep it,
  and their data together are the bytes written, in order. (Buffers of less than 1 GiB: their lengths are
  added in 32 bits.)\<close>

theorem mux_stream_roundtrip:
  assumes "writer_ok w" "list_all fits mb" "\<not> MultiBuffer_IsEmpty mb" "Writer_stream p w mb = Some (bs, e, w')"
  shows "e = Written () \<and> w_followup w' \<and>
    (let fs = read_frames (concat bs) in
     fs \<noteq> [] \<and> concat (map (the \<circ> snd) fs) = mb_bytes mb \<and>
     (\<forall>f \<in> set fs. SessionID (fst f) = w_id w \<and> snd f \<noteq> None) \<and>
     (\<not> w_followup w \<longrightarrow> SessionStatus (fst (hd fs)) = SessionStatusNew \<and> Target (fst (hd fs)) = w_dest w) \<and>
     (\<forall>f \<in> set (tl fs). SessionStatus (fst f) = SessionStatusKeep))"
proof -
  obtain cs where cs: "stream_chunks p mb = Some cs" "mb_bytes (concat cs) = mb_bytes mb"
      "\<forall>c \<in> set cs. length (mb_bytes c) \<le> buf_Size"
    using stream_chunks_spec [OF assms(2)] by blast
  define ds where "ds = map (\<lambda>c. (mb_bytes c, None :: destination option)) cs"
  have ok: "list_all chunk_ok ds"
    using cs(3) by (auto simp: ds_def chunk_ok_def list_all_iff)
  have wr: "(bs, e, w') = writeChunks w ds"
    using assms(3,4) cs(1) by (simp add: Writer_stream_def ds_def)
  have ne: "cs \<noteq> []"
    using cs(1) assms(3) by (subst (asm) stream_chunks.simps) (auto split: Option.bind_splits prod.splits)
  then obtain d ds' where ds: "ds = d # ds'" by (cases cs) (auto simp: ds_def)
  have fs: "read_frames (concat bs) = map frame_view (frames_of w ds)"
    using read_writeChunks [OF assms(1) ok] wr by (metis fst_conv)
  have "concat (map (the \<circ> snd) (map frame_view (frames_of w ds))) = concat (map fst ds)"
    using arg_cong [OF frames_of_data [of w ds], of "\<lambda>xs. concat (map the xs)"] by (simp add: comp_def)
  moreover have "concat (map fst ds) = mb_bytes (concat cs)"
    unfolding ds_def by (induction cs) simp_all
  ultimately have data: "concat (map (the \<circ> snd) (map frame_view (frames_of w ds))) = mb_bytes mb"
    using cs(2) by simp
  have "\<forall>f \<in> set (tl (map frame_view (frames_of w ds))). SessionStatus (fst f) = SessionStatusKeep"
    using arg_cong [OF frames_of_status [of w ds], of "\<lambda>xs. set (tl xs)"] by (auto simp: ds comp_def map_tl)
  moreover have "\<forall>x \<in> set (frames_of w ds). snd (frame_view x) \<noteq> None"
    by (simp add: frame_view_def)
  ultimately show ?thesis
    using data wr writeChunks_frames [OF assms(1) ok] frames_of_id [of w ds] unfolding fs
    by (auto simp: ds frame_view_def meta_view_def)
qed

theorem mux_stream_roundtrip_witness:
  "\<exists>bs w'. Writer_stream [] demo_writer [Buffer_FromBytes [1, 2, 3]] = Some (bs, Written (), w') \<and>
     concat (map (the \<circ> snd) (read_frames (concat bs))) = [1, 2, 3]"
proof -
  let ?mb = "[Buffer_FromBytes [1, 2, 3]]"
  have inv: "list_all fits ?mb" by (simp add: fits_FromBytes)
  have ne: "\<not> MultiBuffer_IsEmpty ?mb" by (simp add: MultiBuffer_IsEmpty_def Buffer_IsEmpty_content buf_inv_FromBytes)
  obtain cs where "stream_chunks [] ?mb = Some cs" using stream_chunks_spec [OF inv] by blast
  with ne obtain bs e w' where w: "Writer_stream [] demo_writer ?mb = Some (bs, e, w')"
    by (cases "writeChunks demo_writer (map (\<lambda>c. (mb_bytes c, None)) cs)") (auto simp: Writer_stream_def)
  then show ?thesis
    using mux_stream_roundtrip [OF demo_writer_ok inv ne w] by (simp add: Let_def)
qed

text \<open>C17: packets keep their boundaries: each packet, up to the last one that is not empty, arrives as
  the data of one frame of its own.\<close>

theorem mux_packets_roundtrip:
  assumes "writer_ok w" "list_all chunk_ok mb" "\<exists>c \<in> set mb. fst c \<noteq> []" "Writer_packets w mb = (bs, e, w')"
  shows "e = Written () \<and> map snd (read_frames (concat bs)) = map (Some \<circ> fst) (packet_chunks mb) \<and>
     concat (map fst (packet_chunks mb)) = concat (map fst mb)"
proof -
  have ok: "list_all chunk_ok (packet_chunks mb)" by (rule packet_chunks_ok [OF assms(2)])
  have "\<not> list_all (\<lambda>c. fst c = []) mb" using assms(3) by (auto simp: list_all_iff)
  then have wr: "(bs, e, w') = writeChunks w (packet_chunks mb)"
    using assms(4) by (simp add: Writer_packets_def)
  have "map snd (read_frames (concat bs)) = map (snd \<circ> frame_view) (frames_of w (packet_chunks mb))"
    using read_writeChunks [OF assms(1) ok] wr by (metis fst_conv map_map)
  moreover have "concat (map fst (packet_chunks cs)) = concat (map fst cs)" for cs :: "chunk list"
    by (induction cs) (auto simp: list_all_iff)
  ultimately show ?thesis
    using wr writeChunks_frames [OF assms(1) ok] by (simp add: frames_of_data)
qed

theorem mux_packets_roundtrip_witness:
  "\<exists>bs w'. Writer_packets demo_writer [([1], None), ([], None), ([2, 3], None), ([], None)] = (bs, Written (), w') \<and>
     map snd (read_frames (concat bs)) = [Some [1], Some [], Some [2, 3]]"
proof -
  let ?mb = "[([1], None), ([], None), ([2, 3], None), ([], None)] :: chunk list"
  obtain bs e w' where w: "Writer_packets demo_writer ?mb = (bs, e, w')" by (cases "Writer_packets demo_writer ?mb")
  have "list_all chunk_ok ?mb" by (simp add: chunk_ok_def buf_Size_def)
  from mux_packets_roundtrip [OF demo_writer_ok this _ w] w show ?thesis by simp
qed

end
