(* ===== verification/Mux_Session.thy ===== *)
theory Mux_Session
  imports Mux_Frame "HOL-Library.AList" "HOL-Library.Multiset"
begin

text \<open>
  \<open>common/mux/session.go\<close> and the part of \<open>client.go\<close> that chooses a connection: the sessions of one
  multiplexed connection, and the picker that spreads sessions over connections. A session is an
  object: the manager keeps the objects ever made in a list and its map as pairs of an identifier
  and an index of that list. The map \<open>XUDPManager.Map\<close>, shared by all managers, is passed along. Every
  operation runs under the manager's lock.
\<close>

section \<open>Sessions\<close>

datatype xudp_status = XInitializing | XActive | XExpiring

text \<open>Status and expiry (in seconds) of an XUDP association.\<close>

type_synonym xudp_map = "bytes \<rightharpoonup> xudp_status \<times> int"

record mux_session =
  s_ID :: u16
  s_closed :: bool
  s_XUDP :: "bytes option"

text \<open>What closing a session does to its pipes.\<close>

datatype pipe_effect = Interrupted nat | Detached nat

record session_manager =
  objs :: "mux_session list"
  sessions :: "(u16 \<times> nat) list"
  sm_count :: u16
  sm_closed :: bool

definition NewSessionManager :: session_manager where
  "NewSessionManager = \<lparr>objs = [], sessions = [], sm_count = 0, sm_closed = False\<rparr>"

definition Size :: "session_manager \<Rightarrow> nat" where
  "Size m = length (sessions m)"

definition Count :: "session_manager \<Rightarrow> nat" where
  "Count m = unat (sm_count m)"

record client_strategy =
  MaxConcurrency :: u32
  MaxConnection :: u32

definition Allocate :: "client_strategy \<Rightarrow> session_manager \<Rightarrow> session_manager \<times> nat option" where
  "Allocate strategy m =
     (let maxConcurrency = unat (MaxConcurrency strategy);
          maxConnection = (ucast (MaxConnection strategy) :: u16)
      in if sm_closed m \<or> (maxConcurrency > 0 \<and> Size m \<ge> maxConcurrency) \<or>
            (maxConnection > 0 \<and> sm_count m \<ge> maxConnection)
         then (m, None)
         else
           let c = sm_count m + 1; k = length (objs m)
           in (m\<lparr>sm_count := c, objs := objs m @ [\<lparr>s_ID = c, s_closed = False, s_XUDP = None\<rparr>],
                 sessions := AList.update c k (sessions m)\<rparr>, Some k))"

definition Add_session :: "mux_session \<Rightarrow> session_manager \<Rightarrow> session_manager \<times> nat option" where
  "Add_session s m =
     (if sm_closed m then (m, None)
      else let k = length (objs m)
           in (m\<lparr>sm_count := sm_count m + 1, objs := objs m @ [s],
                 sessions := AList.update (s_ID s) k (sessions m)\<rparr>, Some k))"

definition Remove :: "u16 \<Rightarrow> session_manager \<Rightarrow> session_manager" where
  "Remove sid m = (if sm_closed m then m else m\<lparr>sessions := AList.delete sid (sessions m)\<rparr>)"

definition Get :: "session_manager \<Rightarrow> u16 \<Rightarrow> nat option" where
  "Get m sid = (if sm_closed m then None else map_of (sessions m) sid)"

definition CloseIfNoSessionAndIdle :: "nat \<Rightarrow> nat \<Rightarrow> session_manager \<Rightarrow> session_manager \<times> bool" where
  "CloseIfNoSessionAndIdle checkSize checkCount m =
     (if sm_closed m then (m, True)
      else if Size m \<noteq> 0 \<or> checkSize \<noteq> 0 \<or> checkCount \<noteq> Count m then (m, False)
      else (m\<lparr>sm_closed := True, sessions := []\<rparr>, True))"

definition Session_Close :: "int \<Rightarrow> nat \<Rightarrow> session_manager \<times> xudp_map \<Rightarrow>
    (session_manager \<times> xudp_map) \<times> pipe_effect list" where
  "Session_Close now k mx =
     (let (m, x) = mx; s = objs m ! k in
      if s_closed s then ((m, x), [])
      else
        let m = m\<lparr>objs := (objs m)[k := s\<lparr>s_closed := True\<rparr>]\<rparr> in
        case s_XUDP s of
          None \<Rightarrow> ((Remove (s_ID s) m, x), [Interrupted k])
        | Some gid \<Rightarrow>
            ((Remove (s_ID s) m,
              case x gid of
                Some (XActive, _) \<Rightarrow> x(gid \<mapsto> (XExpiring, now + 60))
              | _ \<Rightarrow> x), [Detached k]))"

fun close_all :: "int \<Rightarrow> nat list \<Rightarrow> session_manager \<times> xudp_map \<Rightarrow>
    (session_manager \<times> xudp_map) \<times> pipe_effect list" where
  "close_all now [] mx = (mx, [])"
| "close_all now (k # ks) mx =
     (let (mx, e) = Session_Close now k mx; (mx, es) = close_all now ks mx in (mx, e @ es))"

definition Manager_Close :: "int \<Rightarrow> session_manager \<times> xudp_map \<Rightarrow>
    (session_manager \<times> xudp_map) \<times> pipe_effect list" where
  "Manager_Close now mx =
     (let (m, x) = mx in
      if sm_closed m then ((m, x), [])
      else let ((m, x), e) = close_all now (map snd (sessions m)) (m\<lparr>sm_closed := True\<rparr>, x)
           in ((m\<lparr>sessions := []\<rparr>, x), e))"

text \<open>One round of the cleaner of the XUDP map: the associations dropped have their pipes interrupted.\<close>

definition xudp_clean :: "int \<Rightarrow> xudp_map \<Rightarrow> xudp_map" where
  "xudp_clean now x =
     (\<lambda>gid. case x gid of Some (XExpiring, t) \<Rightarrow> if now > t then None else x gid | _ \<Rightarrow> x gid)"

section \<open>Choosing a connection\<close>

record client_worker =
  cw_manager :: session_manager
  cw_done :: bool
  cw_strategy :: client_strategy

definition IsClosing :: "client_worker \<Rightarrow> bool" where
  "IsClosing w \<longleftrightarrow> MaxConnection (cw_strategy w) > 0 \<and>
     Count (cw_manager w) \<ge> unat (MaxConnection (cw_strategy w))"

definition IsFull :: "client_worker \<Rightarrow> bool" where
  "IsFull w \<longleftrightarrow> IsClosing w \<or> cw_done w \<or>
     (MaxConcurrency (cw_strategy w) > 0 \<and> Size (cw_manager w) \<ge> unat (MaxConcurrency (cw_strategy w)))"

text \<open>\<open>Dispatch\<close> of a worker: whether it took the link; the copying goes on in goroutines.\<close>

definition Worker_Dispatch :: "client_worker \<Rightarrow> client_worker \<times> bool" where
  "Worker_Dispatch w =
     (if IsFull w then (w, False)
      else case Allocate (cw_strategy w) (cw_manager w) of
             (m, None) \<Rightarrow> (w\<lparr>cw_manager := m\<rparr>, False)
           | (m, Some _) \<Rightarrow> (w\<lparr>cw_manager := m\<rparr>, True))"

text \<open>\<open>findAvailable\<close>: \<open>None\<close> is -1.\<close>

fun findAvailable :: "client_worker list \<Rightarrow> nat option" where
  "findAvailable [] = None"
| "findAvailable (w # ws) = (if \<not> IsFull w then Some 0 else map_option Suc (findAvailable ws))"

definition cleanup :: "client_worker list \<Rightarrow> client_worker list" where
  "cleanup ws = filter (\<lambda>w. \<not> cw_done w) ws"

text \<open>
  \<open>pickInternal\<close>: the workers afterwards and the index of the one that is returned (\<open>None\<close> for the
  error of the factory); \<open>create\<close> is the factory's result.
\<close>

definition pickInternal :: "client_worker option \<Rightarrow> client_worker list \<Rightarrow> client_worker list \<times> nat option" where
  "pickInternal create ws =
     (case findAvailable ws of
        Some idx \<Rightarrow>
          let n = length ws
          in if n > 1 \<and> idx \<noteq> n - 1
             then (ws[n - 1 := ws ! idx, idx := ws ! (n - 1)], Some idx)
             else (ws, Some idx)
      | None \<Rightarrow>
          let ws = cleanup ws
          in case create of
               None \<Rightarrow> (ws, None)
             | Some w \<Rightarrow> (ws @ [w], Some (length ws)))"

datatype dispatch_result = Dispatched | FactoryError | NoWorker

text \<open>\<open>ClientManager.Dispatch\<close>: up to \<open>n\<close> rounds (the code has 16) of picking and trying.\<close>

fun Dispatch_loop :: "nat \<Rightarrow> client_worker option \<Rightarrow> client_worker list \<Rightarrow> client_worker list \<times> dispatch_result" where
  "Dispatch_loop 0 create ws = (ws, NoWorker)"
| "Dispatch_loop (Suc n) create ws =
     (case pickInternal create ws of
        (ws, None) \<Rightarrow> (ws, FactoryError)
      | (ws, Some i) \<Rightarrow>
          let (w, ok) = Worker_Dispatch (ws ! i); ws = ws[i := w]
          in if ok then (ws, Dispatched) else Dispatch_loop n create ws)"

definition Manager_Dispatch :: "client_worker option \<Rightarrow> client_worker list \<Rightarrow> client_worker list \<times> dispatch_result" where
  "Manager_Dispatch create ws = Dispatch_loop 16 create ws"

section \<open>The manager's invariant\<close>

text \<open>
  The map of a client's manager: every entry leads to an object with that identifier that is not
  closed, identifiers are distinct and among those handed out.
\<close>

definition manager_ok :: "session_manager \<Rightarrow> bool" where
  "manager_ok m \<longleftrightarrow> distinct (map fst (sessions m)) \<and>
     (\<forall>(sid, k) \<in> set (sessions m). k < length (objs m) \<and> s_ID (objs m ! k) = sid \<and>
        \<not> s_closed (objs m ! k) \<and> 1 \<le> sid \<and> sid \<le> sm_count m) \<and>
     (sm_closed m \<longrightarrow> sessions m = [])"

lemma set_AList_delete: "set (AList.delete k xs) = {x \<in> set xs. fst x \<noteq> k}"
  by (auto simp: AList.delete_eq)

lemma update_new: "k \<notin> fst ` set xs \<Longrightarrow> AList.update k v xs = xs @ [(k, v)]"
  by (induction xs) auto

lemma manager_ok_Allocate [inv_intros]:
  assumes "manager_ok m" "unat (sm_count m) < 65535"
  shows "manager_ok (fst (Allocate st m)) \<and> (\<forall>k. snd (Allocate st m) = Some k \<longrightarrow>
     sm_count m + 1 \<notin> fst ` set (sessions m))"
proof -
  have c: "unat (sm_count m + 1) = unat (sm_count m) + 1"
    using assms(2) by (simp add: unat_word_ariths)
  then have lt: "sm_count m < sm_count m + 1" "1 \<le> sm_count m + 1"
    by (simp_all add: word_less_nat_alt word_le_nat_alt)
  have old: "\<forall>(sid, k) \<in> set (sessions m). k < length (objs m) \<and> s_ID (objs m ! k) = sid \<and>
      \<not> s_closed (objs m ! k) \<and> 1 \<le> sid \<and> sid \<le> sm_count m"
    using assms(1) by (simp add: manager_ok_def)
  then have new: "sm_count m + 1 \<notin> fst ` set (sessions m)"
    using lt(1) by fastforce
  have "\<forall>(sid, k) \<in> set (sessions m). k < Suc (length (objs m)) \<and> s_ID ((objs m @ [s]) ! k) = sid \<and>
      \<not> s_closed ((objs m @ [s]) ! k) \<and> 1 \<le> sid \<and> sid \<le> sm_count m + 1" for s
    using old lt(1) by (fastforce simp: nth_append)
  with assms(1) new lt show ?thesis
    by (auto simp: Allocate_def Let_def manager_ok_def update_new)
qed

lemma manager_ok_delete:
  assumes "manager_ok m" "k < length (objs m)"
  shows "manager_ok (m\<lparr>objs := (objs m)[k := (objs m ! k)\<lparr>s_closed := True\<rparr>],
     sessions := AList.delete (s_ID (objs m ! k)) (sessions m)\<rparr>)"
  using assms
  by (auto simp: manager_ok_def set_AList_delete nth_list_update intro: AList.distinct_delete)

lemma manager_ok_Close_session [inv_intros]:
  assumes "manager_ok m" "k < length (objs m)"
  shows "manager_ok (fst (fst (Session_Close now k (m, x))))"
proof (cases "sm_closed m")
  case True
  then have "sessions m = []" using assms(1) by (simp add: manager_ok_def)
  with True assms show ?thesis
    by (auto simp: Session_Close_def Let_def Remove_def manager_ok_def split: option.split)
next
  case False
  with manager_ok_delete [OF assms] assms(1) show ?thesis
    by (auto simp: Session_Close_def Let_def Remove_def split: option.split)
qed

lemma Allocate_frame:
  "length (objs (fst (Allocate st m))) \<ge> length (objs m)"
  "snd (Allocate st m) = Some k \<Longrightarrow> k < length (objs (fst (Allocate st m)))"
  by (auto simp: Allocate_def Let_def split: if_splits)

lemma Close_session_frame:
  "length (objs (fst (fst (Session_Close now k (m, x))))) = length (objs m)"
  "sm_count (fst (fst (Session_Close now k (m, x)))) = sm_count m"
  by (auto simp: Session_Close_def Let_def Remove_def split: option.split)

text \<open>The operations of a client's manager.\<close>

datatype sm_op = OAllocate | OClose nat int | OIdle nat nat | OCloseAll int

fun sm_apply :: "client_strategy \<Rightarrow> session_manager \<times> xudp_map \<Rightarrow> sm_op \<Rightarrow> session_manager \<times> xudp_map" where
  "sm_apply st (m, x) OAllocate = (fst (Allocate st m), x)"
| "sm_apply st (m, x) (OClose k now) = (if k < length (objs m) then fst (Session_Close now k (m, x)) else (m, x))"
| "sm_apply st (m, x) (OIdle a b) = (fst (CloseIfNoSessionAndIdle a b m), x)"
| "sm_apply st (m, x) (OCloseAll now) = fst (Manager_Close now (m, x))"

lemma close_all_frame:
  "sm_closed m \<Longrightarrow> sessions (fst (fst (close_all now ks (m, x)))) = sessions m \<and>
     sm_closed (fst (fst (close_all now ks (m, x)))) \<and>
     sm_count (fst (fst (close_all now ks (m, x)))) = sm_count m \<and>
     length (objs (fst (fst (close_all now ks (m, x))))) = length (objs m)"
proof (induction ks arbitrary: m x)
  case (Cons k ks)
  obtain m' x' e where c: "Session_Close now k (m, x) = ((m', x'), e)"
    by (cases "Session_Close now k (m, x)") auto
  have "sm_closed m' \<and> sessions m' = sessions m"
    using c Cons.prems by (auto simp: Session_Close_def Let_def Remove_def split: if_splits option.splits)
  moreover have "sm_count m' = sm_count m" "length (objs m') = length (objs m)"
    using Close_session_frame [of now k m x] c by simp_all
  ultimately show ?case
    using Cons.IH [of m' x'] c by (simp add: split_beta Let_def)
qed simp

lemma manager_ok_Manager_Close: "manager_ok m \<Longrightarrow> manager_ok (fst (fst (Manager_Close now (m, x))))"
  by (auto simp: Manager_Close_def Let_def split_beta manager_ok_def)

definition sm_inv :: "client_strategy \<Rightarrow> nat \<Rightarrow> session_manager \<Rightarrow> bool" where
  "sm_inv st n m \<longleftrightarrow> manager_ok m \<and> Count m \<le> n \<and>
     (MaxConcurrency st > 0 \<longrightarrow> Size m \<le> unat (MaxConcurrency st)) \<and>
     ((ucast (MaxConnection st) :: u16) > 0 \<longrightarrow> sm_count m \<le> ucast (MaxConnection st))"

lemma length_AList_delete: "length (AList.delete k xs) \<le> length xs"
  by (simp add: AList.delete_eq)

lemma Close_session_Size: "Size (fst (fst (Session_Close now k (m, x)))) \<le> Size m"
  by (auto simp: Session_Close_def Let_def Remove_def Size_def length_AList_delete split: option.split)

lemma sm_inv_Allocate:
  assumes "sm_inv st n m" "n < 65535"
  shows "sm_inv st (Suc n) (fst (Allocate st m))"
proof -
  have c: "unat (sm_count m) < 65535" using assms by (simp add: sm_inv_def Count_def)
  then have c1: "unat (sm_count m + 1) = unat (sm_count m) + 1" by (simp add: unat_word_ariths)
  have ok: "manager_ok (fst (Allocate st m))"
    and fresh: "\<And>k. snd (Allocate st m) = Some k \<Longrightarrow> sm_count m + 1 \<notin> fst ` set (sessions m)"
    using manager_ok_Allocate [of m st] assms(1) c by (auto simp: sm_inv_def)
  show ?thesis
  proof (cases "snd (Allocate st m)")
    case None
    then have "fst (Allocate st m) = m" by (auto simp: Allocate_def Let_def split: if_splits)
    with assms(1) show ?thesis by (simp add: sm_inv_def)
  next
    case (Some k)
    then have g: "\<not> (MaxConcurrency st > 0 \<and> Size m \<ge> unat (MaxConcurrency st))"
      "\<not> ((ucast (MaxConnection st) :: u16) > 0 \<and> sm_count m \<ge> ucast (MaxConnection st))"
      and new: "fst (Allocate st m) = m\<lparr>sm_count := sm_count m + 1,
        objs := objs m @ [\<lparr>s_ID = sm_count m + 1, s_closed = False, s_XUDP = None\<rparr>],
        sessions := sessions m @ [(sm_count m + 1, length (objs m))]\<rparr>"
      using fresh [OF Some] by (auto simp: Allocate_def Let_def update_new word_gt_0 unat_gt_0 split: if_splits)
    have "sm_count m + 1 \<le> mc" if "sm_count m < mc" for mc :: u16
      using that c1 by (simp add: word_less_nat_alt word_le_nat_alt)
    with g ok c1 assms(1) show ?thesis
      by (auto simp: sm_inv_def new Count_def Size_def not_le)
  qed
qed

lemma sm_inv_apply:
  assumes "sm_inv st n m" "n < 65535"
  shows "sm_inv st (Suc n) (fst (sm_apply st (m, x) op))"
proof -
  have up: "sm_inv st n m' \<Longrightarrow> sm_inv st (Suc n) m'" for m' by (auto simp: sm_inv_def)
  show ?thesis
  proof (cases op)
    case OAllocate
    with sm_inv_Allocate [OF assms] show ?thesis by simp
  next
    case (OClose k now)
    show ?thesis
    proof (cases "k < length (objs m)")
      case True
      have "sm_inv st n (fst (fst (Session_Close now k (m, x))))"
        using assms(1) manager_ok_Close_session [OF _ True, of now x] Close_session_Size [of now k m x]
          Close_session_frame(2) [of now k m x]
        by (auto simp: sm_inv_def Count_def)
      with up OClose True show ?thesis by simp
    next
      case False
      with up OClose assms(1) show ?thesis by simp
    qed
  next
    case (OIdle a b)
    have "sm_inv st n (fst (CloseIfNoSessionAndIdle a b m))"
      using assms(1) by (auto simp: sm_inv_def CloseIfNoSessionAndIdle_def manager_ok_def Size_def Count_def)
    with up OIdle show ?thesis by simp
  next
    case (OCloseAll now)
    have "sm_count (fst (fst (Manager_Close now (m, x)))) = sm_count m"
      "Size (fst (fst (Manager_Close now (m, x)))) \<le> Size m"
      using close_all_frame [of "m\<lparr>sm_closed := True\<rparr>" now "map snd (sessions m)" x]
      by (auto simp: Manager_Close_def Let_def split_beta Size_def)
    with manager_ok_Manager_Close [of m now x] assms(1) have "sm_inv st n (fst (fst (Manager_Close now (m, x))))"
      by (auto simp: sm_inv_def Count_def)
    with up OCloseAll show ?thesis by simp
  qed
qed

lemma sm_inv_run:
  assumes "sm_inv st n m" "n + length ops \<le> 65535"
  shows "sm_inv st (n + length ops) (fst (foldl (sm_apply st) (m, x) ops))"
  using assms
proof (induction ops arbitrary: n m x)
  case (Cons op ops)
  obtain m' x' where a: "sm_apply st (m, x) op = (m', x')" by fastforce
  with sm_inv_apply [of st n m x op] Cons.prems have "sm_inv st (Suc n) m'" by simp
  from Cons.IH [OF this] Cons.prems a show ?case by simp
qed simp

section \<open>Properties\<close>

text \<open>C10: over the first 65535 operations of a client's connection, whatever they are, the sessions in the
  map are open, known under distinct identifiers, never more than the configured concurrency, and
  no more identifiers are handed out than the configured number.\<close>

theorem session_manager_invariant:
  assumes "length ops \<le> 65535" "m = fst (foldl (sm_apply st) (NewSessionManager, x) ops)"
  shows "distinct (map fst (sessions m)) \<and>
     (\<forall>(sid, k) \<in> set (sessions m). s_ID (objs m ! k) = sid \<and> \<not> s_closed (objs m ! k)) \<and>
     (MaxConcurrency st > 0 \<longrightarrow> Size m \<le> unat (MaxConcurrency st)) \<and>
     ((ucast (MaxConnection st) :: u16) > 0 \<longrightarrow> sm_count m \<le> ucast (MaxConnection st))"
proof -
  have "sm_inv st 0 NewSessionManager"
    by (simp add: sm_inv_def NewSessionManager_def manager_ok_def Count_def Size_def)
  from sm_inv_run [OF this, of ops x] assms show ?thesis
    by (auto simp: sm_inv_def manager_ok_def)
qed

theorem session_manager_invariant_witness:
  "Size (fst (foldl (sm_apply \<lparr>MaxConcurrency = 2, MaxConnection = 128\<rparr>) (NewSessionManager, Map.empty)
     [OAllocate, OAllocate, OAllocate, OClose 0 5, OAllocate])) \<le> 2"
  using session_manager_invariant [of "[OAllocate, OAllocate, OAllocate, OClose 0 5, OAllocate]" _
      "\<lparr>MaxConcurrency = 2, MaxConnection = 128\<rparr>" Map.empty, OF _ refl]
  by simp

text \<open>Without limits: the manager after \<open>n\<close> allocations, up to the wrap of the 16-bit counter.\<close>

abbreviation allocated :: "client_strategy \<Rightarrow> xudp_map \<Rightarrow> nat \<Rightarrow> session_manager" where
  "allocated st x n \<equiv> fst (foldl (sm_apply st) (NewSessionManager, x) (replicate n OAllocate))"

lemma allocated_Suc: "allocated st x (Suc n) = fst (Allocate st (allocated st x n))"
proof -
  have x: "snd (foldl (sm_apply st) (m, x) (replicate n OAllocate)) = x" for m
    by (induction n arbitrary: m) simp_all
  have "replicate (Suc n) OAllocate = replicate n OAllocate @ [OAllocate]"
    by (simp add: replicate_append_same)
  then show ?thesis
    using x [of NewSessionManager] by (cases "foldl (sm_apply st) (NewSessionManager, x) (replicate n OAllocate)") simp
qed

lemma identifiers_differ:
  assumes "i < n" "n < 65536"
  shows "(of_nat (Suc i) :: u16) \<noteq> of_nat (Suc n)"
proof
  assume "(of_nat (Suc i) :: u16) = of_nat (Suc n)"
  then have "unat (of_nat (Suc i) :: u16) = unat (of_nat (Suc n) :: u16)" by (rule arg_cong)
  then have "Suc i mod 65536 = Suc n mod 65536"
    by (simp add: unat_of_nat take_bit_eq_mod del: of_nat_Suc)
  with assms show False
    by (cases "Suc n = 65536") (simp_all add: mod_less)
qed

lemma allocated_spec:
  assumes "MaxConcurrency st = 0" "MaxConnection st = 0" "n \<le> 65536"
  shows "allocated st x n = \<lparr>objs = map (\<lambda>i. \<lparr>s_ID = of_nat (Suc i), s_closed = False, s_XUDP = None\<rparr>) [0..<n],
     sessions = map (\<lambda>i. (of_nat (Suc i), i)) [0..<n], sm_count = of_nat n, sm_closed = False\<rparr>"
  using assms(3)
proof (induction n)
  case (Suc n)
  have "(of_nat (Suc n) :: u16) \<notin> fst ` set (map (\<lambda>i. (of_nat (Suc i), i)) [0..<n])"
    using identifiers_differ [of _ n] Suc.prems by fastforce
  with Suc assms(1,2) show ?case
    unfolding allocated_Suc by (simp add: Allocate_def Let_def update_new add.commute)
qed (simp add: NewSessionManager_def)

text \<open>C35: the bound of C10 is tight. Without limits on sessions the 16-bit counter wraps: the session made by the 65536th allocation gets the identifier 0,
  and the next one takes the identifier 1 from the first session, which is still open, keeps its
  identifier, and is no longer in the map under any.\<close>

theorem identifier_wraps:
  assumes "MaxConcurrency st = 0" "MaxConnection st = 0"
    and "m = fst (foldl (sm_apply st) (NewSessionManager, x) (replicate 65536 OAllocate))"
    and "m' = fst (Allocate st m)"
  shows "Get m 1 = Some 0 \<and> Get m 0 = Some 65535 \<and> Get m' 1 = Some 65536 \<and>
    s_ID (objs m' ! 0) = 1 \<and> \<not> s_closed (objs m' ! 0) \<and> 0 \<notin> snd ` set (sessions m')"
proof -
  define k :: nat where "k = 65536"
  have m: "m = \<lparr>objs = map (\<lambda>i. \<lparr>s_ID = of_nat (Suc i), s_closed = False, s_XUDP = None\<rparr>) [0..<k],
      sessions = map (\<lambda>i. (of_nat (Suc i), i)) [0..<k], sm_count = of_nat k, sm_closed = False\<rparr>"
    using allocated_spec [OF assms(1,2), of k x] assms(3) by (simp add: k_def)
  have d: "distinct (map fst (sessions m))"
    unfolding m using identifiers_differ
    by (auto simp: k_def distinct_map inj_on_def) (metis linorder_neqE_nat of_nat_Suc)
  have mem: "(of_nat (Suc i), i) \<in> set (sessions m)" if "i < k" for i
    unfolding m using that by simp
  have w: "(of_nat (Suc 65535) :: u16) = 0" "(of_nat k :: u16) = 0" by (simp_all add: k_def)
  have "(1, 0) \<in> set (sessions m)" "(0, 65535) \<in> set (sessions m)"
    using mem [of 0] mem [of 65535] unfolding w(1) by (simp_all add: k_def)
  then have get: "Get m 1 = Some 0" "Get m 0 = Some 65535"
    using map_of_is_SomeI [OF d] by (simp_all add: Get_def) (simp_all add: m)
  have m': "m' = m\<lparr>sm_count := 1, objs := objs m @ [\<lparr>s_ID = 1, s_closed = False, s_XUDP = None\<rparr>],
      sessions := AList.update 1 k (sessions m)\<rparr>"
    unfolding assms(4) using assms(1,2) w(2) by (simp add: Allocate_def Let_def m)
  have o: "objs m \<noteq> []" "objs m ! 0 = \<lparr>s_ID = 1, s_closed = False, s_XUDP = None\<rparr>" "\<not> sm_closed m"
    unfolding m by (simp_all add: k_def nth_map)
  have "0 \<notin> snd ` set (sessions m')"
  proof
    assume "0 \<in> snd ` set (sessions m')"
    then obtain sid where "(sid, 0) \<in> set (AList.update 1 k (sessions m))" by (auto simp: m')
    then have "map_of (AList.update 1 k (sessions m)) sid = Some 0"
      using d by (simp add: map_of_is_SomeI distinct_update)
    then have "sid \<noteq> 1" "map_of (sessions m) sid = Some 0"
      by (auto simp: update_conv k_def split: if_splits)
    then show False
      by (auto dest!: map_of_SomeD simp: m)
  qed
  with get o show ?thesis
    by (simp add: m' Get_def update_conv nth_append k_def)
qed

theorem identifier_wraps_witness:
  "Get (fst (Allocate \<lparr>MaxConcurrency = 0, MaxConnection = 0\<rparr>
     (fst (foldl (sm_apply \<lparr>MaxConcurrency = 0, MaxConnection = 0\<rparr>) (NewSessionManager, Map.empty)
        (replicate 65536 OAllocate))))) 1 = Some 65536"
  using identifier_wraps [of "\<lparr>MaxConcurrency = 0, MaxConnection = 0\<rparr>", OF _ _ refl refl, of Map.empty]
  by simp

lemma pick_last_spec:
  assumes "findAvailable ws = Some i" "i < length ws - 1" "pickInternal create ws = (ws', r)"
  shows "mset ws' = mset ws \<and> r = Some i \<and> ws' ! i = last ws \<and> last ws' = ws ! i \<and> \<not> IsFull (last ws')"
proof -
  have len: "length ws > 1" "i < length ws" using assms(2) by simp_all
  have av: "\<not> IsFull (ws ! i)"
    using assms(1) by (induction ws arbitrary: i) (auto split: if_splits)
  have ws': "ws' = ws[length ws - 1 := ws ! i, i := ws ! (length ws - 1)]" "r = Some i"
    using assms len by (auto simp: pickInternal_def Let_def)
  have "mset ws' = mset ws"
    using mset_swap [of "length ws - 1" ws i] len unfolding ws' by (simp add: mset_swap)
  moreover have ne: "ws \<noteq> []" "ws' \<noteq> []" using len ws'(1) by auto
  ultimately have *: "mset ws' = mset ws" "last ws = ws ! (length ws - 1)" "last ws' = ws' ! (length ws' - 1)"
    using last_conv_nth [OF ne(1)] last_conv_nth [OF ne(2)] by simp_all
  show ?thesis
    using * ws' len assms(2) av by auto
qed


text \<open>C36: choosing a connection never loses one: the list of workers keeps its elements, and when one
  with room is found behind others and is not the last, the picker moves it to the end and returns
  the worker that was there before, which may have no room.\<close>

theorem pick_returns_last:
  assumes "findAvailable ws = Some i" "i < length ws - 1" "pickInternal create ws = (ws', r)"
  shows "mset ws' = mset ws \<and> r = Some i \<and> ws' ! i = last ws \<and> last ws' = ws ! i \<and> \<not> IsFull (last ws')"
  using assms by (rule pick_last_spec)

definition demo_worker :: "nat \<Rightarrow> bool \<Rightarrow> client_worker" where
  "demo_worker n d = \<lparr>cw_manager = NewSessionManager\<lparr>sm_count := of_nat n\<rparr>, cw_done = d,
     cw_strategy = \<lparr>MaxConcurrency = 8, MaxConnection = 128\<rparr>\<rparr>"

theorem pick_returns_last_witness:
  "pickInternal None [demo_worker 0 False, demo_worker 128 False] =
     ([demo_worker 128 False, demo_worker 0 False], Some 0) \<and> IsFull (demo_worker 128 False) \<and>
   mset [demo_worker 128 False, demo_worker 0 False] = mset [demo_worker 0 False, demo_worker 128 False]"
proof -
  have full: "IsFull (demo_worker 128 False)" "\<not> IsFull (demo_worker 0 False)"
    by (simp_all add: IsFull_def IsClosing_def demo_worker_def Count_def NewSessionManager_def Size_def)
  let ?ws = "[demo_worker 0 False, demo_worker 128 False]"
  have p: "pickInternal None ?ws = ([demo_worker 128 False, demo_worker 0 False], Some 0)"
    using full by (simp add: pickInternal_def Let_def)
  show ?thesis
    using pick_returns_last [OF _ _ p] full p by simp
qed

lemma findAvailable_Some: "findAvailable ws = Some i \<Longrightarrow> i < length ws \<and> \<not> IsFull (ws ! i) \<and> (\<forall>j < i. IsFull (ws ! j))"
  by (induction ws arbitrary: i) (auto split: if_splits simp: less_Suc_eq_0_disj nth_Cons')

lemma findAvailable_None: "findAvailable ws = None \<longleftrightarrow> (\<forall>w \<in> set ws. IsFull w)"
  by (induction ws) auto

lemma Worker_Dispatch_room:
  assumes "\<not> IsFull w" "\<not> sm_closed (cw_manager w)" "MaxConnection (cw_strategy w) < 65536"
  shows "snd (Worker_Dispatch w)"
proof -
  have u: "unat (ucast (MaxConnection (cw_strategy w)) :: u16) = unat (MaxConnection (cw_strategy w))"
    using assms(3) by (simp add: word_less_nat_alt unsigned_ucast_eq take_bit_eq_mod)
  show ?thesis
    using assms u
    by (auto simp: Worker_Dispatch_def Allocate_def Let_def IsFull_def IsClosing_def Count_def not_le
        word_le_nat_alt word_less_nat_alt unat_gt_0)
qed

text \<open>What a round leaves: the worker is dispatched, or the list is the one picked.\<close>

definition usable :: "client_worker \<Rightarrow> bool" where
  "usable w \<longleftrightarrow> IsFull w \<or> (\<not> sm_closed (cw_manager w) \<and> MaxConnection (cw_strategy w) < 65536)"

lemma usable_dispatch: "usable w \<Longrightarrow> snd (Worker_Dispatch w) \<longleftrightarrow> \<not> IsFull w"
  using Worker_Dispatch_room by (auto simp: usable_def Worker_Dispatch_def)

lemma full_dispatch: "IsFull w \<Longrightarrow> Worker_Dispatch w = (w, False)"
  by (simp add: Worker_Dispatch_def)

lemma Dispatch_round:
  assumes "pickInternal create ws = (ws', Some i)" "i < length ws'" "usable (ws' ! i)"
  shows "Dispatch_loop (Suc n) create ws =
    (if IsFull (ws' ! i) then Dispatch_loop n create ws'
     else (ws'[i := fst (Worker_Dispatch (ws' ! i))], Dispatched))"
  using assms usable_dispatch [OF assms(3)] full_dispatch [of "ws' ! i"]
  by (cases "Worker_Dispatch (ws' ! i)") (auto simp: Let_def)

lemma pickInternal_last:
  assumes "ws \<noteq> []" "\<not> IsFull (last ws)"
  obtains ws' i where "pickInternal create ws = (ws', Some i)" "i < length ws'" "ws' ! i = last ws"
proof -
  from assms have "last ws \<in> set ws" by simp
  with assms(2) obtain i where i: "findAvailable ws = Some i"
    using findAvailable_None [of ws] by fastforce
  note av = findAvailable_Some [OF i]
  show ?thesis
  proof (cases "length ws > 1 \<and> i \<noteq> length ws - 1")
    case True
    with i av have "pickInternal create ws = (ws[length ws - 1 := ws ! i, i := ws ! (length ws - 1)], Some i)"
      by (simp add: pickInternal_def Let_def)
    with av assms(1) that show ?thesis by (simp add: last_conv_nth)
  next
    case False
    with av have "i = length ws - 1" by auto
    with False i av assms(1) that [of ws i] show ?thesis by (simp add: pickInternal_def Let_def last_conv_nth)
  qed
qed

lemma Dispatch_loop_more:
  "snd (Dispatch_loop n create ws) = Dispatched \<Longrightarrow> Dispatch_loop (n + k) create ws = Dispatch_loop n create ws"
proof (induction n arbitrary: ws)
  case (Suc n)
  obtain ws' r where p: "pickInternal create ws = (ws', r)" by fastforce
  show ?case
  proof (cases r)
    case None
    with p show ?thesis by simp
  next
    case (Some i)
    obtain w ok where "Worker_Dispatch (ws' ! i) = (w, ok)" by fastforce
    with p Some Suc show ?thesis by (cases ok) (simp_all add: Let_def)
  qed
qed simp

text \<open>C20: nevertheless a link is always placed when some connection has room, and within two rounds: two
  rounds of the sixteen suffice, and \<open>Dispatch\<close> ends as they do. Connections with room are taken to have
  an open session manager and a connection limit that fits its 16-bit counter.\<close>

theorem dispatch_within_two:
  assumes "\<exists>w \<in> set ws. \<not> IsFull w" "\<forall>w \<in> set ws. usable w"
  shows "snd (Dispatch_loop 2 create ws) = Dispatched \<and>
    Manager_Dispatch create ws = Dispatch_loop 2 create ws"
proof -
  have two: "snd (Dispatch_loop (Suc (Suc n)) create ws) = Dispatched" for n
  proof -
    obtain i where i: "findAvailable ws = Some i"
      using assms(1) findAvailable_None [of ws] by fastforce
    note av = findAvailable_Some [OF i]
    then have ne: "ws \<noteq> []" by auto
    show ?thesis
    proof (cases "i < length ws - 1")
      case False
      with av have "i = length ws - 1" by auto
      then have p: "pickInternal create ws = (ws, Some i)"
        using i by (simp add: pickInternal_def Let_def)
      show ?thesis
        using Dispatch_round [OF p, of "Suc n"] av assms(2) by (simp del: Dispatch_loop.simps)
    next
      case True
      obtain ws' where p: "pickInternal create ws = (ws', Some i)"
        using i by (cases "pickInternal create ws") (simp add: pickInternal_def Let_def split: if_splits)
      note P = pick_last_spec [OF i True p]
      have len: "length ws' = length ws" using P by (metis size_mset)
      have u: "usable (ws' ! i)" using P assms(2) ne by simp
      show ?thesis
      proof (cases "IsFull (ws' ! i)")
        case False
        then show ?thesis using Dispatch_round [OF p _ u, of "Suc n"] av len by (simp del: Dispatch_loop.simps)
      next
        case full: True
        have "ws' \<noteq> []" using len ne by auto
        then obtain ws2 j where q: "pickInternal create ws' = (ws2, Some j)" "j < length ws2" "ws2 ! j = last ws'"
          using pickInternal_last P by blast
        have "usable (ws2 ! j)" using q(3) P assms(2) av by simp
        moreover have "\<not> IsFull (ws2 ! j)" using q(3) P by metis
        ultimately have d: "snd (Dispatch_loop (Suc n) create ws') = Dispatched"
          using Dispatch_round [OF q(1,2), of n] by (simp del: Dispatch_loop.simps)
        have "Dispatch_loop (Suc (Suc n)) create ws = Dispatch_loop (Suc n) create ws'"
          using Dispatch_round [OF p _ u, of "Suc n"] av len full by (simp del: Dispatch_loop.simps)
        with d show ?thesis by (simp del: Dispatch_loop.simps)
      qed
    qed
  qed
  have "snd (Dispatch_loop 2 create ws) = Dispatched"
    using two [of 0] by (simp only: numeral_2_eq_2)
  with Dispatch_loop_more [OF this, of 14] show ?thesis
    by (simp add: Manager_Dispatch_def del: Dispatch_loop.simps)
qed

theorem dispatch_within_two_witness:
  "snd (Dispatch_loop 2 None [demo_worker 0 False, demo_worker 128 False]) = Dispatched \<and>
   snd (Dispatch_loop 1 None [demo_worker 0 False, demo_worker 128 False]) = NoWorker"
proof -
  let ?ws = "[demo_worker 0 False, demo_worker 128 False]"
  have full: "IsFull (demo_worker 128 False)" "\<not> IsFull (demo_worker 0 False)"
    "usable (demo_worker 128 False)" "usable (demo_worker 0 False)"
    by (simp_all add: usable_def IsFull_def IsClosing_def demo_worker_def Count_def NewSessionManager_def Size_def)
  then have "snd (Dispatch_loop 1 None ?ws) = NoWorker"
    by (simp add: pickInternal_def Let_def Worker_Dispatch_def)
  with full dispatch_within_two [of ?ws None] show ?thesis by simp
qed

end
