(* ===== verification/Spec2Isabelle.thy ===== *)
theory Spec2Isabelle
  imports Kcp_System Kcp_Concurrent App_Services Mux_Session
begin

text \<open>
  Lxray is an HarmonyOS proxy application. Its user interface (ArkTS) talks through a C++ bridge to a Go
  library (\<open>entry/src/main/golang\<close>), which hosts one instance of Xray-core
  (\<open>Xray-core-26.3.27\<close>): a set of features (routing, DNS, policies, handlers) that carries connections
  from inbound to outbound proxies over a choice of transports. This development models the parts of the
  Go code whose behaviour is decided by the code itself, bottom up; \<open>XR\<close> below is
  \<open>Xray-core-26.3.27\<close> and \<open>LX\<close> is \<open>entry/src/main/golang\<close>.

  The theories, what each models, and what it shows:

  \<^bold>\<open>Prelude\<close>: bytes as 8-bit words, big- and little-endian fields, list lemmas, the named collections of facts,
  and the locale \<open>prefix_codec\<close> (an encoder whose output a parser consumes exactly, in front of any
  rest), from which streams of encoded values are read back.

  \<^bold>\<open>Buf\<close> (\<open>XR/common/buf\<close>: buffer.go, multi_buffer.go). A buffer is its array with the two indices of the
  code; an operation that panics is \<open>None\<close>. Each operation has its effect on the contents, and the operations on lists of buffers
  (split, merge, compact) keep the stream of bytes.

  \<^bold>\<open>Kcp_Segment\<close>, \<^bold>\<open>Kcp_Sending\<close>, \<^bold>\<open>Kcp_Receiving\<close>, \<^bold>\<open>Kcp_Connection\<close>, \<^bold>\<open>Kcp_System\<close>
  (\<open>XR/transport/internet/kcp\<close>): the reliable transport mKCP. Segment: segment.go, output.go, io.go, one record per
  segment type, serialiser and parser. Sending and Receiving: sending.go and receiving.go, one record per
  worker, counters at 32 bits with wrap-around, one function per method. Connection: connection.go and
  config.go, a record of the connection with both workers, and each handler (input, read, write, flush,
  close, terminate) as a function, as it runs while no other handler does. \<^bold>\<open>Kcp_Concurrent\<close>: the same
  handlers as goroutines, cut into atomic steps (the code takes no lock around the state), and
  \<open>conc_step\<close> interleaves them; a handler that is not interrupted is the function of Kcp_Connection.
  System: both workers of one direction and a network that loses, repeats, delays and reorders; here
  the delivered bytes are related to the written ones from end to end.

  \<^bold>\<open>Core_Instance\<close> (\<open>XR/core/xray.go\<close>): the instance with its features and pending dependency
  resolutions; callbacks run as soon as what they need is present, and may register others. Making an
  instance adds the configured apps, the essential defaults and the handlers, whose constructors may ask
  for features too.

  \<^bold>\<open>App_Log\<close> (\<open>LX/xlog/xlog.go\<close>): the ring of recent entries, the daily files and the cleaning of old
  ones, refining the abstract history of all accepted entries. The clock is read anew for every line written,
  and a write may fail or be cut short.

  \<^bold>\<open>App_Services\<close> (\<open>LX/main.go\<close>, \<open>LX/ipc\<close>, \<open>LX/services\<close>): requests from the user interface, the
  registry, and every service. The locale \<open>ipc_service\<close> is the contract of a service (every name it
  offers is answered, any other is refused without an effect); it is interpreted for the eight services of the registry.
  Starting and stopping the core make and close instances of Core_Instance; \<open>a_gone\<close> keeps those given
  up, to say whether they were closed.

  \<^bold>\<open>Net_Address\<close>, \<^bold>\<open>Address_Codec\<close> (\<open>XR/common/net\<close>, \<open>XR/common/protocol/address.go\<close>): addresses, ports,
  destinations, textual IP addresses, and the address serialiser shared by the proxy protocols. It is an
  interpretation of \<open>prefix_codec\<close>.

  \<^bold>\<open>Mux_Frame\<close>, \<^bold>\<open>Mux_Session\<close> (\<open>XR/common/mux\<close>: frame.go, writer.go, reader.go, session.go and the worker
  picker of client.go): many sessions over one connection. What a session's writer hands on is read
  back as its frames; the session manager keeps identifiers distinct and limits respected; a picker finds a
  connection with room.

  How the code is represented. Errors and panics are values (\<open>option\<close> or a sum, with the code's
  messages where they decide something). Go's fixed-width integers are words. A method that mutates its receiver returns the new record.
  Methods that hold a lock from beginning to end are one step; where a method gives the lock up, the
  interleavings are steps of an inductive relation. Times are arguments: a function that reads
  the clock twice takes two readings. Goroutines, the Go scheduler, memory recycling (pools) and logging text
  are not represented, except where pooling exposes old contents, which are then arbitrary.

  Code outside the repository is a parameter: the network, the file system, JSON text and the
  figures of the Go runtime come from an environment record in \<open>App_Services\<close> and \<open>App_Log\<close>; reading from an
  \<open>io.Reader\<close> and the objects made from settings by reflection are arguments.

  Bounds. \<open>Read_loop\<close> of \<open>Kcp_Receiving\<close> runs through at most the numbers of one window; it ends because each round
  takes a segment out of it. Sequence numbers are followed for the first \<open>2 ^ 31\<close> segments of a
  connection: the code compares numbers without regard to wrap-around, so the bound is part of the statements.
  The worker picker's \<open>Dispatch\<close> loop has the code's own 16 rounds, of which two suffice. Textual IPv6
  addresses have at most eight groups, which bounds the parser.

  What the theorems record besides correctness: places where the code does something other than
  its comments or callers expect are theorems too (for example \<open>fresh_segments_stall\<close>,
  \<open>flush_clock_race\<close>, \<open>long_domain_corrupts\<close>, \<open>identifier_wraps\<close>, \<open>pick_returns_last\<close>,
  \<open>add_feature_error\<close>, \<open>second_init_duplicates\<close>, \<open>check_ip_skips\<close>).

  Not modelled: the proxies' own protocols and the other transports (they wrap cryptographic or network
  libraries), routing and DNS, the configuration loader (JSON to protobuf), generated protobuf code, commands, tests,
  and the ArkTS and C++ parts of the application.
\<close>

end
